theory Spec2Isabelle
  imports Complex_Main "HOL-Library.Log_Nat"
begin

section \<open>Double arithmetic as a parameter\<close>

text \<open>
  The library computes on C \<^verbatim>\<open>double\<close> values. The operations of the language on
  them are collected in a record, and every function of \<^verbatim>\<open>stats.c\<close> takes this
  record as its first argument: a theorem proved for every such record holds for IEEE 754
  binary64 arithmetic as well as for exact arithmetic on the reals.

  \<^item> \<open>d_lit\<close>: the value of a decimal floating constant of the source text;
  \<^item> \<open>d_of_int\<close>: the conversion of an \<^verbatim>\<open>int\<close> to \<^verbatim>\<open>double\<close>;
  \<^item> \<open>d_neg\<close>, \<open>d_add\<close>, \<open>d_sub\<close>, \<open>d_mul\<close>, \<open>d_div\<close>: unary minus and
    the four binary operators;
  \<^item> \<open>d_sqrt\<close>: the square root of \<^verbatim>\<open>math.h\<close>.
\<close>

record 'd arith =
  d_lit :: "rat \<Rightarrow> 'd"
  d_of_int :: "int \<Rightarrow> 'd"
  d_neg :: "'d \<Rightarrow> 'd"
  d_add :: "'d \<Rightarrow> 'd \<Rightarrow> 'd"
  d_sub :: "'d \<Rightarrow> 'd \<Rightarrow> 'd"
  d_mul :: "'d \<Rightarrow> 'd \<Rightarrow> 'd"
  d_div :: "'d \<Rightarrow> 'd \<Rightarrow> 'd"
  d_sqrt :: "'d \<Rightarrow> 'd"

text \<open>The transcendental functions of \<^verbatim>\<open>math.h\<close> that \<^verbatim>\<open>randn\<close> calls.\<close>

record 'd libm =
  d_log :: "'d \<Rightarrow> 'd"
  d_cos :: "'d \<Rightarrow> 'd"

section \<open>Memory, access log and standard output\<close>

text \<open>
  A pointer argument of the library is the address of the first element of a buffer of
  the caller. The memory is a family of buffers, one per block number, each a list of
  doubles; a pointer is a block number, and two pointer arguments alias when they are the
  same block. A block that was never allocated is the empty list. Every access is checked
  against the length of its block: where the C program would read or write outside the
  buffer it was given, the model returns \<open>Out_of_bounds\<close> with the block and the index.

  The state also logs every load and store in the order they happen, and holds the text
  written to standard output so far.

  The \<^verbatim>\<open>int\<close> variables of the source (dimensions, loop counters, offsets) are
  32-bit two's complement integers, the \<^verbatim>\<open>int\<close> of the ILP32 and LP64 data models, with
  \<open>INT_MAX = 2^31 - 1\<close>. Signed overflow is undefined in C: where the result of an
  \<^verbatim>\<open>int\<close> operation of the source is outside \<open>INT_MIN .. INT_MAX\<close>, the model returns
  \<open>Int_overflow\<close> with the result that \<^verbatim>\<open>int\<close> cannot hold.
\<close>

datatype error = Out_of_bounds nat int | Int_overflow int

datatype access = Load nat int | Store nat int

record 'd state =
  heap :: "nat \<Rightarrow> 'd list"
  trace :: "access list"
  stdout :: string

type_synonym ('d, 'a) prog = "'d state \<Rightarrow> error + ('a \<times> 'd state)"

definition bind :: "('d, 'a) prog \<Rightarrow> ('a \<Rightarrow> ('d, 'b) prog) \<Rightarrow> ('d, 'b) prog" where
  "bind m f s = (case m s of Inl e \<Rightarrow> Inl e | Inr (x, s') \<Rightarrow> f x s')"

definition in_bounds :: "'d state \<Rightarrow> nat \<Rightarrow> int \<Rightarrow> bool" where
  "in_bounds s p i \<longleftrightarrow> 0 \<le> i \<and> i < int (length (heap s p))"

definition INT_MAX :: int where
  "INT_MAX = 2147483647"

definition INT_MIN :: int where
  "INT_MIN = - INT_MAX - 1"

text \<open>The result \<open>v\<close> of an operation on \<^verbatim>\<open>int\<close>: \<open>i * dim_j\<close>, \<open>j + n\<close>, \<open>i++\<close>.\<close>

definition int_result :: "int \<Rightarrow> ('d, int) prog" where
  "int_result v s = (if INT_MIN \<le> v \<and> v \<le> INT_MAX then Inr (v, s) else Inl (Int_overflow v))"

text \<open>\<^verbatim>\<open>p[i]\<close> as an rvalue.\<close>

definition load :: "nat \<Rightarrow> int \<Rightarrow> ('d, 'd) prog" where
  "load p i s =
     (if in_bounds s p i
      then Inr (heap s p ! nat i, s\<lparr>trace := trace s @ [Load p i]\<rparr>)
      else Inl (Out_of_bounds p i))"

text \<open>\<^verbatim>\<open>p[i] = v\<close>.\<close>

definition store :: "nat \<Rightarrow> int \<Rightarrow> 'd \<Rightarrow> ('d, unit) prog" where
  "store p i v s =
     (if in_bounds s p i
      then Inr ((), s\<lparr>heap := (heap s)(p := (heap s p)[nat i := v]),
                      trace := trace s @ [Store p i]\<rparr>)
      else Inl (Out_of_bounds p i))"

text \<open>Writing a text to standard output.\<close>

definition put :: "string \<Rightarrow> ('d, unit) prog" where
  "put txt s = Inr ((), s\<lparr>stdout := stdout s @ txt\<rparr>)"

text \<open>
  \<^verbatim>\<open>for (i = lo; i < hi; i++) body\<close>. The loop stops at the first error of its body or
  of its increment.
\<close>

function for_loop :: "int \<Rightarrow> int \<Rightarrow> (int \<Rightarrow> ('d, unit) prog) \<Rightarrow> ('d, unit) prog" where
  "for_loop i hi body s =
     (if i < hi
      then (case body i s of
              Inl e \<Rightarrow> Inl e
            | Inr (u, s') \<Rightarrow>
                (case int_result (i + 1) s' of
                   Inl e \<Rightarrow> Inl e
                 | Inr (k, s'') \<Rightarrow> for_loop k hi body s''))
      else Inr ((), s))"
  by pat_completeness auto
termination
  by (relation "measure (\<lambda>(i, hi, body, s). nat (hi - i))")
     (auto simp: int_result_def split: if_splits)

declare for_loop.simps [simp del]

section \<open>The functions of stats.c\<close>

definition stat_mean :: "'d arith \<Rightarrow> nat \<Rightarrow> nat \<Rightarrow> int \<Rightarrow> int \<Rightarrow> ('d, unit) prog" where
  "stat_mean A a mean dim_i dim_j =
     bind (for_loop 0 dim_j (\<lambda>j. store mean j (d_of_int A 0))) (\<lambda>_.
     bind (for_loop 0 dim_i (\<lambda>i.
             bind (int_result (i * dim_j)) (\<lambda>n.
             for_loop 0 dim_j (\<lambda>j.
               bind (load mean j) (\<lambda>m.
               bind (int_result (j + n)) (\<lambda>k.
               bind (load a k) (\<lambda>x.
               store mean j (d_add A m x)))))))) (\<lambda>_.
     for_loop 0 dim_j (\<lambda>j.
       bind (load mean j) (\<lambda>m.
       store mean j (d_div A m (d_of_int A dim_i))))))"

definition stat_std :: "'d arith \<Rightarrow> nat \<Rightarrow> nat \<Rightarrow> nat \<Rightarrow> int \<Rightarrow> int \<Rightarrow> ('d, unit) prog" where
  "stat_std A a mean std dim_i dim_j =
     bind (for_loop 0 dim_j (\<lambda>j. store std j (d_of_int A 0))) (\<lambda>_.
     bind (for_loop 0 dim_i (\<lambda>i.
             bind (int_result (i * dim_j)) (\<lambda>n.
             for_loop 0 dim_j (\<lambda>j.
               bind (load std j) (\<lambda>acc.
               bind (int_result (j + n)) (\<lambda>k.
               bind (load a k) (\<lambda>x.
               bind (load mean j) (\<lambda>m.
               bind (int_result (j + n)) (\<lambda>k'.
               bind (load a k') (\<lambda>x'.
               bind (load mean j) (\<lambda>m'.
               store std j (d_add A acc (d_mul A (d_sub A x m) (d_sub A x' m')))))))))))))) (\<lambda>_.
     for_loop 0 dim_j (\<lambda>j.
       bind (load std j) (\<lambda>v.
       bind (int_result (dim_i - 1)) (\<lambda>d.
       bind (store std j (d_div A v (d_of_int A d))) (\<lambda>_.
       bind (load std j) (\<lambda>w.
       store std j (d_sqrt A w))))))))"

definition remove_mean_col :: "'d arith \<Rightarrow> nat \<Rightarrow> nat \<Rightarrow> nat \<Rightarrow> int \<Rightarrow> int \<Rightarrow> ('d, unit) prog" where
  "remove_mean_col A a mean b dim_i dim_j =
     for_loop 0 dim_i (\<lambda>i.
       for_loop 0 dim_j (\<lambda>j.
         bind (int_result (i * dim_j)) (\<lambda>p.
         bind (int_result (p + j)) (\<lambda>k.
         bind (load a k) (\<lambda>x.
         bind (load mean j) (\<lambda>m.
         bind (int_result (i * dim_j)) (\<lambda>p'.
         bind (int_result (p' + j)) (\<lambda>k'.
         store b k' (d_sub A x m)))))))))"

definition modify_mean_stddev :: "'d arith \<Rightarrow> nat \<Rightarrow> 'd \<Rightarrow> 'd \<Rightarrow> int \<Rightarrow> int \<Rightarrow> ('d, unit) prog" where
  "modify_mean_stddev A mtx new_mean new_stddev dim_i dim_j =
     for_loop 0 dim_i (\<lambda>i.
       for_loop 0 dim_j (\<lambda>j.
         bind (int_result (i * dim_j)) (\<lambda>p.
         bind (int_result (p + j)) (\<lambda>k.
         bind (load mtx k) (\<lambda>x.
         bind (int_result (i * dim_i)) (\<lambda>p'.
         bind (int_result (p' + j)) (\<lambda>k'.
         store mtx k' (d_add A (d_mul A x new_stddev) new_mean))))))))"

text \<open>
  \<^verbatim>\<open>randn\<close> reads the pseudo-random generator of the C library, whose state is hidden in
  the library. The model passes that state explicitly: \<open>rand\<close> maps a generator state to
  the number drawn and the next state, and \<open>RAND_MAX\<close> is the constant of
  \<^verbatim>\<open>stdlib.h\<close>. Both are parameters, since neither is defined in the repository.
  \<open>Twopi\<close> is the decimal constant of the source, with its 49 decimals.
\<close>

definition Twopi :: rat where
  "Twopi = 62831853071795864769252867665590057683943387987502 / 10 ^ 49"

definition randn :: "'d arith \<Rightarrow> 'd libm \<Rightarrow> ('g \<Rightarrow> int \<times> 'g) \<Rightarrow> int \<Rightarrow> 'g \<Rightarrow> 'd \<times> 'g" where
  "randn A L rand RAND_MAX g =
     (let randmax = d_of_int A RAND_MAX;
          (r, g') = rand g;
          random = d_of_int A r;
          random = d_div A random randmax;
          randnorm = d_sqrt A (d_mul A (d_neg A (d_lit A 2)) (d_log L random));
          randnorm = d_mul A randnorm (d_cos L (d_mul A (d_lit A Twopi) random))
      in (randnorm, g'))"

text \<open>
  \<^verbatim>\<open>show_matrix\<close> prints with \<^verbatim>\<open>printf("%2.5f ", ...)\<close> and \<^verbatim>\<open>printf("\n")\<close>. The
  conversion of a double by \<^verbatim>\<open>%2.5f\<close> belongs to the C library; it is the parameter
  \<open>fmt\<close>.
\<close>

definition show_matrix :: "('d \<Rightarrow> string) \<Rightarrow> nat \<Rightarrow> int \<Rightarrow> int \<Rightarrow> ('d, unit) prog" where
  "show_matrix fmt A dim_i dim_j =
     for_loop 0 dim_i (\<lambda>i.
       bind (for_loop 0 dim_j (\<lambda>j.
               bind (int_result (i * dim_j)) (\<lambda>p.
               bind (int_result (p + j)) (\<lambda>k.
               bind (load A k) (\<lambda>x.
               put (fmt x @ '' '')))))) (\<lambda>_.
       put [CHR 0x0A]))"

section \<open>Two interpretations of the arithmetic\<close>

subsection \<open>Exact arithmetic\<close>

text \<open>The operations on the real numbers, without rounding.\<close>

definition exact_arith :: "real arith" where
  "exact_arith = \<lparr>d_lit = of_rat, d_of_int = of_int, d_neg = uminus, d_add = (+),
     d_sub = (-), d_mul = (*), d_div = (/), d_sqrt = sqrt\<rparr>"

subsection \<open>IEEE 754 binary64, finite values\<close>

text \<open>
  A finite double is the rational number it denotes; \<open>None\<close> stands for every result
  that is not a finite number (overflow, division by zero, the root of a negative number,
  an operand that is \<open>None\<close> already). The two zeros are not distinguished. Results are
  rounded to the nearest double, ties to the even significand, which is the rounding of a
  C program that does not change the rounding mode: 53 bits of significand, exponents of
  the leading bit from -1022 to 1023, subnormal numbers below.
\<close>

function ipow2 :: "int \<Rightarrow> int" where
  "ipow2 k = (if k \<le> 0 then 1 else 2 * ipow2 (k - 1))"
  by pat_completeness auto
termination
  by (relation "measure nat") auto

declare ipow2.simps [simp del]

definition pow2 :: "int \<Rightarrow> rat" where
  "pow2 e = (if 0 \<le> e then of_int (ipow2 e) else 1 / of_int (ipow2 (- e)))"

function bit_length :: "int \<Rightarrow> int" where
  "bit_length n = (if n \<le> 0 then 0 else 1 + bit_length (n div 2))"
  by pat_completeness auto
termination
  by (relation "measure nat") auto

declare bit_length.simps [simp del]

text \<open>For \<open>q > 0\<close>, the exponent \<open>e\<close> with \<open>2^e \<le> q < 2^(e+1)\<close>.\<close>

definition floor_log2 :: "rat \<Rightarrow> int" where
  "floor_log2 q =
     (let (n, d) = quotient_of q;
          k = bit_length n - bit_length d
      in if pow2 k \<le> q then k else k - 1)"

text \<open>The nearest integer, a tie going to the even one.\<close>

definition round_even :: "rat \<Rightarrow> int" where
  "round_even x =
     (let f = \<lfloor>x\<rfloor>; r = x - of_int f
      in if r < 1 / 2 then f else if 1 / 2 < r then f + 1 else if even f then f else f + 1)"

definition b64_round :: "rat \<Rightarrow> rat option" where
  "b64_round q =
     (if q = 0 then Some 0
      else let e = max (floor_log2 \<bar>q\<bar>) (- 1022);
               u = pow2 (e - 52);
               m = round_even (\<bar>q\<bar> / u)
           in if 1023 < e \<or> (e = 1023 \<and> m = 9007199254740992) then None
              else Some (sgn q * (of_int m * u)))"

text \<open>The integer square root, rounded down.\<close>

function isqrt :: "int \<Rightarrow> int" where
  "isqrt n =
     (if n < 2 then n
      else let r = 2 * isqrt (n div 4)
           in if (r + 1) * (r + 1) \<le> n then r + 1 else r)"
  by pat_completeness auto
termination
  by (relation "measure nat") auto

declare isqrt.simps [simp del]

text \<open>
  The correctly rounded square root of \<open>q > 0\<close>: the root is computed to 57 bits, with a
  half added when it is not exact, so that the rounding to 53 bits sees on which side of
  every rounding boundary the root lies.
\<close>

definition b64_sqrt_pos :: "rat \<Rightarrow> rat option" where
  "b64_sqrt_pos q =
     (let k = 56 - floor_log2 q div 2;
          x = q * pow2 (2 * k);
          s = isqrt \<lfloor>x\<rfloor>;
          r = (of_int s + (if of_int (s * s) = x then 0 else 1 / 2)) * pow2 (- k)
      in b64_round r)"

definition b64_arith :: "rat option arith" where
  "b64_arith = \<lparr>
     d_lit = b64_round,
     d_of_int = (\<lambda>i. b64_round (of_int i)),
     d_neg = map_option uminus,
     d_add = (\<lambda>x y. case (x, y) of (Some p, Some q) \<Rightarrow> b64_round (p + q) | _ \<Rightarrow> None),
     d_sub = (\<lambda>x y. case (x, y) of (Some p, Some q) \<Rightarrow> b64_round (p - q) | _ \<Rightarrow> None),
     d_mul = (\<lambda>x y. case (x, y) of (Some p, Some q) \<Rightarrow> b64_round (p * q) | _ \<Rightarrow> None),
     d_div = (\<lambda>x y. case (x, y) of
                (Some p, Some q) \<Rightarrow> if q = 0 then None else b64_round (p / q) | _ \<Rightarrow> None),
     d_sqrt = (\<lambda>x. case x of
                Some q \<Rightarrow> if q < 0 then None else if q = 0 then Some 0 else b64_sqrt_pos q
              | None \<Rightarrow> None)\<rparr>"

subsection \<open>The conversion \<^verbatim>\<open>%2.5f\<close>\<close>

definition digit :: "int \<Rightarrow> char" where
  "digit d = ''0123456789'' ! nat d"

function digits10 :: "int \<Rightarrow> string" where
  "digits10 n = (if n < 10 then [digit n] else digits10 (n div 10) @ [digit (n mod 10)])"
  by pat_completeness auto
termination
  by (relation "measure nat") auto

declare digits10.simps [simp del]

text \<open>
  Modelled from the spec: the conversion \<^verbatim>\<open>%2.5f\<close> of \<^verbatim>\<open>printf\<close>, which is code of the C
  library and not of the repository. The specification describes it as fixed-point
  notation with 5 fractional digits and a minimum field width of 2. The value (a finite
  double, given as the rational it denotes) is rounded to 5 decimals, a tie to the even
  digit; a negative value has a minus sign; the integer part has at least one digit; the
  text is padded with spaces on the left to 2 characters.
\<close>

definition printf_2_5f :: "rat \<Rightarrow> string" where
  "printf_2_5f x =
     (let n = round_even (\<bar>x\<bar> * 100000);
          txt = (if x < 0 then ''-'' else []) @ digits10 (n div 100000) @ ''.'' @
                map (\<lambda>k. digit (n div k mod 10)) [10000, 1000, 100, 10, 1]
      in replicate (2 - length txt) (CHR '' '') @ txt)"

section \<open>What the functions are to compute\<close>

text \<open>The sum of a list in the order of the list, starting from the double 0.\<close>

definition d_sum :: "'d arith \<Rightarrow> 'd list \<Rightarrow> 'd" where
  "d_sum A xs = foldl (d_add A) (d_of_int A 0) xs"

text \<open>
  Column \<open>j\<close> of the first \<open>rows\<close> rows of the row-major matrix \<open>m\<close> with \<open>dim_j\<close>
  columns: the elements at the offsets \<open>i * dim_j + j\<close>, for \<open>i\<close> from 0 to \<open>rows - 1\<close>.
\<close>

definition column :: "'d list \<Rightarrow> int \<Rightarrow> int \<Rightarrow> int \<Rightarrow> 'd list" where
  "column m dim_j rows j = map (\<lambda>i. m ! nat (i * dim_j + j)) [0..rows - 1]"

text \<open>The squared deviation of \<open>x\<close> from \<open>m\<close>.\<close>

definition sq_dev :: "'d arith \<Rightarrow> 'd \<Rightarrow> 'd \<Rightarrow> 'd" where
  "sq_dev A m x = d_mul A (d_sub A x m) (d_sub A x m)"

text \<open>
  Un-centering, in the words of the specification: the mean of column \<open>j\<close> is added back
  to each element of column \<open>j\<close> of the centred matrix \<open>b\<close>.
\<close>

definition add_mean_col :: "'d arith \<Rightarrow> 'd list \<Rightarrow> 'd list \<Rightarrow> int \<Rightarrow> int \<Rightarrow> 'd list" where
  "add_mean_col A b mean dim_i dim_j =
     map (\<lambda>k. d_add A (b ! nat k) (mean ! nat (k mod dim_j))) [0..dim_i * dim_j - 1]"

text \<open>The indices at which block \<open>p\<close> was loaded, in the order of the log.\<close>

fun loads_of :: "nat \<Rightarrow> access list \<Rightarrow> int list" where
  "loads_of p [] = []"
| "loads_of p (Load q i # es) = (if q = p then i # loads_of p es else loads_of p es)"
| "loads_of p (Store q i # es) = loads_of p es"

text \<open>
  Between \<open>s\<close> and \<open>t\<close> the log grew by loads of block \<open>a\<close> at the indices
  \<open>0, 1, \<dots>, c - 1\<close>, each once and in this order, and by accesses to other blocks.
\<close>

definition loaded :: "nat \<Rightarrow> 'd state \<Rightarrow> int \<Rightarrow> 'd state \<Rightarrow> bool" where
  "loaded a s c t \<longleftrightarrow> (\<exists>tr. trace t = trace s @ tr \<and> loads_of a tr = [0..c - 1])"

text \<open>
  Between \<open>s\<close> and \<open>t\<close> nothing but block \<open>out\<close> was written: every other block and
  the standard output are as before, and every store logged since \<open>s\<close> is a store to
  \<open>out\<close>.
\<close>

definition writes_only :: "nat \<Rightarrow> 'd state \<Rightarrow> 'd state \<Rightarrow> bool" where
  "writes_only out s t \<longleftrightarrow>
     (\<forall>q. q \<noteq> out \<longrightarrow> heap t q = heap s q) \<and> stdout t = stdout s \<and>
     (\<exists>tr. trace t = trace s @ tr \<and> (\<forall>q i. Store q i \<in> set tr \<longrightarrow> q = out))"

text \<open>The contents of block \<open>p\<close> after a run, or the error of the run.\<close>

definition buffer_after :: "error + (unit \<times> 'd state) \<Rightarrow> nat \<Rightarrow> error + 'd list" where
  "buffer_after r p = (case r of Inl e \<Rightarrow> Inl e | Inr (u, s) \<Rightarrow> Inr (heap s p))"

text \<open>\<^verbatim>\<open>stat_mean(a, mean, dim_i, dim_j); stat_std(a, mean, std, dim_i, dim_j);\<close>\<close>

definition mean_then_std :: "'d arith \<Rightarrow> nat \<Rightarrow> nat \<Rightarrow> nat \<Rightarrow> int \<Rightarrow> int \<Rightarrow> ('d, unit) prog" where
  "mean_then_std A a mean std dim_i dim_j =
     bind (stat_mean A a mean dim_i dim_j) (\<lambda>_. stat_std A a mean std dim_i dim_j)"

text \<open>\<^verbatim>\<open>stat_mean(a, mean, dim_i, dim_j); remove_mean_col(a, mean, b, dim_i, dim_j);\<close>\<close>

definition mean_then_remove :: "'d arith \<Rightarrow> nat \<Rightarrow> nat \<Rightarrow> nat \<Rightarrow> int \<Rightarrow> int \<Rightarrow> ('d, unit) prog" where
  "mean_then_remove A a mean b dim_i dim_j =
     bind (stat_mean A a mean dim_i dim_j) (\<lambda>_. remove_mean_col A a mean b dim_i dim_j)"

section \<open>Loop invariants\<close>

text \<open>Only block \<open>p\<close> may differ between \<open>s\<close> and \<open>t\<close>, and it kept its length.\<close>

definition unchanged_except :: "nat \<Rightarrow> 'd state \<Rightarrow> 'd state \<Rightarrow> bool" where
  "unchanged_except p s t \<longleftrightarrow>
     (\<forall>q. q \<noteq> p \<longrightarrow> heap t q = heap s q) \<and> length (heap t p) = length (heap s p) \<and>
     stdout t = stdout s"

text \<open>The first \<open>j\<close> elements of \<open>out\<close> are zero, the others as in \<open>s\<close>.\<close>

definition zeroed :: "'d arith \<Rightarrow> nat \<Rightarrow> 'd state \<Rightarrow> int \<Rightarrow> 'd state \<Rightarrow> bool" where
  "zeroed A out s j t \<longleftrightarrow>
     unchanged_except out s t \<and>
     (\<forall>k. 0 \<le> k \<and> k < j \<longrightarrow> heap t out ! nat k = d_of_int A 0) \<and>
     (\<forall>k. j \<le> k \<longrightarrow> heap t out ! nat k = heap s out ! nat k)"

text \<open>
  Element \<open>k\<close> of \<open>out\<close> holds the sum of \<open>g k\<close> over column \<open>k\<close> of \<open>a\<close>: over the
  rows up to \<open>i\<close> for the columns before \<open>j\<close>, over the rows before \<open>i\<close> for the others.
\<close>

definition accumulated ::
  "'d arith \<Rightarrow> (int \<Rightarrow> 'd \<Rightarrow> 'd) \<Rightarrow> nat \<Rightarrow> nat \<Rightarrow> int \<Rightarrow> 'd state \<Rightarrow> int \<Rightarrow> int \<Rightarrow> 'd state \<Rightarrow> bool" where
  "accumulated A g a out dim_j s i j t \<longleftrightarrow>
     unchanged_except out s t \<and>
     (\<forall>k. 0 \<le> k \<and> k < dim_j \<longrightarrow>
        heap t out ! nat k =
          d_sum A (map (g k) (column (heap s a) dim_j (if k < j then i + 1 else i) k))) \<and>
     (\<forall>k. dim_j \<le> k \<longrightarrow> heap t out ! nat k = heap s out ! nat k)"

text \<open>
  Element \<open>k\<close> of \<open>out\<close> holds the sum over the whole column \<open>k\<close>, and \<open>F\<close> of it
  for the columns before \<open>j\<close>.
\<close>

definition finalised ::
  "'d arith \<Rightarrow> (int \<Rightarrow> 'd \<Rightarrow> 'd) \<Rightarrow> ('d \<Rightarrow> 'd) \<Rightarrow> nat \<Rightarrow> nat \<Rightarrow> int \<Rightarrow> int \<Rightarrow> 'd state \<Rightarrow> int \<Rightarrow> 'd state \<Rightarrow> bool" where
  "finalised A g F a out dim_i dim_j s j t \<longleftrightarrow>
     unchanged_except out s t \<and>
     (\<forall>k. 0 \<le> k \<and> k < dim_j \<longrightarrow>
        heap t out ! nat k =
          (let v = d_sum A (map (g k) (column (heap s a) dim_j dim_i k))
           in if k < j then F v else v)) \<and>
     (\<forall>k. dim_j \<le> k \<longrightarrow> heap t out ! nat k = heap s out ! nat k)"

text \<open>The first \<open>c\<close> elements of \<open>b\<close> are centred, the others as in \<open>s\<close>.\<close>

definition centred :: "'d arith \<Rightarrow> nat \<Rightarrow> nat \<Rightarrow> nat \<Rightarrow> int \<Rightarrow> 'd state \<Rightarrow> int \<Rightarrow> 'd state \<Rightarrow> bool" where
  "centred A a mean b dim_j s c t \<longleftrightarrow>
     unchanged_except b s t \<and>
     (\<forall>k. 0 \<le> k \<and> k < c \<longrightarrow>
        heap t b ! nat k = d_sub A (heap s a ! nat k) (heap s mean ! nat (k mod dim_j))) \<and>
     (\<forall>k. c \<le> k \<longrightarrow> heap t b ! nat k = heap s b ! nat k)"

text \<open>The first \<open>c\<close> elements of \<open>mtx\<close> are rescaled, the others as in \<open>s\<close>.\<close>

definition rescaled :: "'d arith \<Rightarrow> nat \<Rightarrow> 'd \<Rightarrow> 'd \<Rightarrow> 'd state \<Rightarrow> int \<Rightarrow> 'd state \<Rightarrow> bool" where
  "rescaled A mtx new_mean new_stddev s c t \<longleftrightarrow>
     unchanged_except mtx s t \<and>
     (\<forall>k. 0 \<le> k \<and> k < c \<longrightarrow>
        heap t mtx ! nat k = d_add A (d_mul A (heap s mtx ! nat k) new_stddev) new_mean) \<and>
     (\<forall>k. c \<le> k \<longrightarrow> heap t mtx ! nat k = heap s mtx ! nat k)"

section \<open>Example states\<close>

text \<open>
  The scenario of the specification: the 3 by 2 matrix with the rows (1, 2), (3, 4) and
  (5, 6) in block 0; blocks 1 and 2 for the two vectors of statistics and block 3 for the
  centred matrix.
\<close>

definition scenario :: "real state" where
  "scenario = \<lparr>heap = (\<lambda>p. [])(0 := [1, 2, 3, 4, 5, 6], 1 := [0, 0], 2 := [0, 0],
                                3 := [0, 0, 0, 0, 0, 0]),
                trace = [], stdout = []\<rparr>"

text \<open>The same, with the column means (3, 4) in block 1.\<close>

definition scenario_mean :: "real state" where
  "scenario_mean = \<lparr>heap = (\<lambda>p. [])(0 := [1, 2, 3, 4, 5, 6], 1 := [3, 4], 2 := [0, 0],
                                     3 := [0, 0, 0, 0, 0, 0]),
                     trace = [], stdout = []\<rparr>"

text \<open>
  A matrix with 3 rows and 1 column whose elements are all the double nearest to 0.1, in
  block 0, with blocks 1 and 2 for the mean and the standard deviation.
\<close>

definition tenths :: "rat option state" where
  "tenths = \<lparr>heap = (\<lambda>p. [])(0 := [b64_round (1 / 10), b64_round (1 / 10), b64_round (1 / 10)],
                             1 := [Some 0], 2 := [Some 0]),
             trace = [], stdout = []\<rparr>"

text \<open>The same with 2 rows and the double 0.5.\<close>

definition halves :: "rat option state" where
  "halves = \<lparr>heap = (\<lambda>p. [])(0 := [Some (1 / 2), Some (1 / 2)], 1 := [Some 0], 2 := [Some 0]),
             trace = [], stdout = []\<rparr>"

text \<open>
  A matrix with 2 rows and 1 column holding the doubles nearest to 0.1 and 1.9, in
  block 0, with block 1 for the mean and block 3 for the centred matrix.
\<close>

definition decimals :: "rat option state" where
  "decimals = \<lparr>heap = (\<lambda>p. [])(0 := [b64_round (1 / 10), b64_round (19 / 10)],
                               1 := [Some 0], 3 := [Some 0, Some 0]),
               trace = [], stdout = []\<rparr>"

text \<open>The same matrix with the exact values 1/10 and 19/10.\<close>

definition decimals_exact :: "real state" where
  "decimals_exact = \<lparr>heap = (\<lambda>p. [])(0 := [1 / 10, 19 / 10], 1 := [0], 3 := [0, 0]),
                     trace = [], stdout = []\<rparr>"

text \<open>
  A matrix with 3 rows and \<open>2^30\<close> columns, all elements 0, in block 0: a buffer of
  \<open>3 * 2^30\<close> doubles, 24 GiB. Blocks 1 and 2 hold vectors of \<open>2^30\<close> elements and
  block 3 a second matrix.
\<close>

definition huge :: "real state" where
  "huge = \<lparr>heap = (\<lambda>p. [])(0 := replicate (nat (3 * 1073741824)) 0,
                           1 := replicate (nat 1073741824) 0,
                           2 := replicate (nat 1073741824) 0,
                           3 := replicate (nat (3 * 1073741824)) 0),
            trace = [], stdout = []\<rparr>"

text \<open>
  Matrices with 2 rows and 1 column of finite doubles, in block 0, with block 1 for the
  mean and block 3 for the centred matrix: one whose sum overflows, and one whose elements
  differ by more than the 53 bits of a significand.
\<close>

definition large :: "rat option state" where
  "large = \<lparr>heap = (\<lambda>p. [])(0 := [Some (2 ^ 1023), Some (2 ^ 1023)],
                            1 := [Some 0], 3 := [Some 0, Some 0]),
            trace = [], stdout = []\<rparr>"

definition spread :: "rat option state" where
  "spread = \<lparr>heap = (\<lambda>p. [])(0 := [Some 1, Some 20000000000000000],
                             1 := [Some 0], 3 := [Some 0, Some 0]),
             trace = [], stdout = []\<rparr>"
section \<open>Loops\<close>

lemma for_loop_done: "\<not> i < hi \<Longrightarrow> for_loop i hi body s = Inr ((), s)"
  by (simp add: for_loop.simps)

lemma int_result_ok: "INT_MIN \<le> v \<Longrightarrow> v \<le> INT_MAX \<Longrightarrow> int_result v s = Inr (v, s)"
  by (simp add: int_result_def)

lemma int_result_nonneg: "0 \<le> v \<Longrightarrow> v \<le> INT_MAX \<Longrightarrow> int_result v s = Inr (v, s)"
  by (simp add: int_result_def INT_MIN_def INT_MAX_def)

lemma int_result_overflow: "INT_MAX < v \<Longrightarrow> int_result v s = Inl (Int_overflow v)"
  by (simp add: int_result_def)

lemma for_loop_step:
  "0 \<le> i \<Longrightarrow> i < hi \<Longrightarrow> hi \<le> INT_MAX \<Longrightarrow> body i s = Inr ((), s') \<Longrightarrow>
   for_loop i hi body s = for_loop (i + 1) hi body s'"
  by (subst for_loop.simps) (simp add: int_result_nonneg)

lemma for_loop_fail:
  "i < hi \<Longrightarrow> body i s = Inl e \<Longrightarrow> for_loop i hi body s = Inl e"
  by (subst for_loop.simps) simp

text \<open>
  The invariant rule: a loop from 0 whose bound is an \<^verbatim>\<open>int\<close> and whose body keeps \<open>I\<close>
  and never fails ends in \<open>I hi\<close>.
\<close>

lemma for_loop_inv:
  assumes "0 \<le> hi" and max: "hi \<le> INT_MAX" and "I 0 s"
    and step: "\<And>k t. 0 \<le> k \<Longrightarrow> k < hi \<Longrightarrow> I k t \<Longrightarrow> \<exists>t'. body k t = Inr ((), t') \<and> I (k + 1) t'"
  shows "\<exists>s'. for_loop 0 hi body s = Inr ((), s') \<and> I hi s'"
proof -
  have "0 \<le> k \<Longrightarrow> k \<le> hi \<Longrightarrow> I k t \<Longrightarrow> \<exists>s'. for_loop k hi body t = Inr ((), s') \<and> I hi s'" for k t
  proof (induction "nat (hi - k)" arbitrary: k t)
    case 0
    then have "k = hi" by simp
    with 0 show ?case by (simp add: for_loop_done)
  next
    case (Suc d)
    then have lt: "k < hi" by linarith
    from step [OF Suc.prems(1) lt Suc.prems(3)]
    obtain t' where b: "body k t = Inr ((), t')" and i: "I (k + 1) t'"
      by blast
    have "d = nat (hi - (k + 1))" using Suc.hyps(2) by linarith
    moreover have "0 \<le> k + 1" using Suc.prems(1) by simp
    moreover have "k + 1 \<le> hi" using lt by simp
    ultimately have "\<exists>s'. for_loop (k + 1) hi body t' = Inr ((), s') \<and> I hi s'"
      using i by (rule Suc.hyps(1))
    then show ?case using for_loop_step [of k hi body t t', OF Suc.prems(1) lt max b] by simp
  qed
  from this [of 0 s] assms(1,3) show ?thesis by simp
qed

lemma idx_bound:
  fixes i j dim_i dim_j :: int
  assumes "0 \<le> i" "i < dim_i" "0 \<le> j" "j < dim_j"
  shows "0 \<le> i * dim_j + j" and "i * dim_j + j < dim_i * dim_j"
proof -
  from assms show "0 \<le> i * dim_j + j" by simp
  have "(i + 1) * dim_j \<le> dim_i * dim_j"
    using assms by (intro mult_right_mono) auto
  moreover have "i * dim_j + j < (i + 1) * dim_j"
    using assms by (simp add: algebra_simps)
  ultimately show "i * dim_j + j < dim_i * dim_j" by linarith
qed

text \<open>Within a matrix that \<^verbatim>\<open>int\<close> can index, no offset overflows.\<close>

lemma idx_int:
  fixes i j dim_i dim_j :: int
  assumes "0 \<le> i" "i < dim_i" "0 \<le> j" "j < dim_j" and "(i + 1) * dim_j \<le> INT_MAX + 1"
  shows "0 \<le> i * dim_j" and "i * dim_j \<le> INT_MAX" and "i * dim_j + j \<le> INT_MAX"
proof -
  from assms show "0 \<le> i * dim_j" by simp
  have "i * dim_j + j < (i + 1) * dim_j"
    using assms by (simp add: algebra_simps)
  with assms(5) show "i * dim_j + j \<le> INT_MAX" by linarith
  with assms(3) show "i * dim_j \<le> INT_MAX" by linarith
qed

lemma row_bound:
  fixes i dim_i dim_j :: int
  assumes "0 \<le> i" "i < dim_i" "0 < dim_j" and "dim_i * dim_j \<le> INT_MAX + 1"
  shows "(i + 1) * dim_j \<le> INT_MAX + 1"
proof -
  have "(i + 1) * dim_j \<le> dim_i * dim_j"
    using assms by (intro mult_right_mono) auto
  with assms(4) show ?thesis by linarith
qed

lemma dims_int:
  fixes dim_i dim_j :: int
  assumes "0 < dim_i" "0 < dim_j" and "dim_i * dim_j \<le> INT_MAX"
  shows "dim_i \<le> INT_MAX" and "dim_j \<le> INT_MAX"
proof -
  have "dim_i * 1 \<le> dim_i * dim_j"
    using assms by (intro mult_left_mono) auto
  with assms(3) show "dim_i \<le> INT_MAX" by simp
  have "1 * dim_j \<le> dim_i * dim_j"
    using assms by (intro mult_right_mono) auto
  with assms(3) show "dim_j \<le> INT_MAX" by simp
qed

lemma in_boundsI: "0 \<le> i \<Longrightarrow> i < n \<Longrightarrow> nat n \<le> length (heap s p) \<Longrightarrow> in_bounds s p i"
  unfolding in_bounds_def by linarith

text \<open>
  The same for a loop that may fail: it keeps \<open>I\<close> to the end, or it stops with an
  error of which \<open>E\<close> holds.
\<close>

lemma for_loop_inv_or_fail:
  assumes "0 \<le> hi" and max: "hi \<le> INT_MAX" and "I 0 s"
    and step: "\<And>k t. 0 \<le> k \<Longrightarrow> k < hi \<Longrightarrow> I k t \<Longrightarrow>
      (\<exists>t'. body k t = Inr ((), t') \<and> I (k + 1) t') \<or> (\<exists>e. body k t = Inl e \<and> E e)"
  shows "(\<exists>s'. for_loop 0 hi body s = Inr ((), s') \<and> I hi s') \<or>
         (\<exists>e. for_loop 0 hi body s = Inl e \<and> E e)"
proof -
  have "0 \<le> k \<Longrightarrow> k \<le> hi \<Longrightarrow> I k t \<Longrightarrow>
      (\<exists>s'. for_loop k hi body t = Inr ((), s') \<and> I hi s') \<or>
      (\<exists>e. for_loop k hi body t = Inl e \<and> E e)" for k t
  proof (induction "nat (hi - k)" arbitrary: k t)
    case 0
    then have "k = hi" by simp
    with 0 show ?case by (simp add: for_loop_done)
  next
    case (Suc d)
    then have lt: "k < hi" by linarith
    from step [OF Suc.prems(1) lt Suc.prems(3)]
    show ?case
    proof
      assume "\<exists>t'. body k t = Inr ((), t') \<and> I (k + 1) t'"
      then obtain t' where b: "body k t = Inr ((), t')" and i: "I (k + 1) t'" by blast
      have "d = nat (hi - (k + 1))" using Suc.hyps(2) by linarith
      moreover have "0 \<le> k + 1" using Suc.prems(1) by simp
      moreover have "k + 1 \<le> hi" using lt by simp
      ultimately have "(\<exists>s'. for_loop (k + 1) hi body t' = Inr ((), s') \<and> I hi s') \<or>
          (\<exists>e. for_loop (k + 1) hi body t' = Inl e \<and> E e)"
        using i by (rule Suc.hyps(1))
      then show ?thesis
        using for_loop_step [of k hi body t t', OF Suc.prems(1) lt max b] by simp
    next
      assume "\<exists>e. body k t = Inl e \<and> E e"
      then obtain e where "body k t = Inl e" "E e" by blast
      with for_loop_fail [of k hi body t e, OF lt] show ?thesis by simp
    qed
  qed
  from this [of 0 s] assms(1,3) show ?thesis by simp
qed

section \<open>The loops of stat_mean\<close>

lemma loads_of_append: "loads_of p (xs @ ys) = loads_of p xs @ loads_of p ys"
  by (induction p xs rule: loads_of.induct) auto

lemma column_0: "column m dim_j 0 j = []"
  by (simp add: column_def)

lemma column_Suc: "0 \<le> i \<Longrightarrow> column m dim_j (i + 1) j = column m dim_j i j @ [m ! nat (i * dim_j + j)]"
  by (simp add: column_def upto_rec2)

lemma d_sum_Nil: "d_sum A [] = d_of_int A 0"
  by (simp add: d_sum_def)

lemma d_sum_snoc: "d_sum A (xs @ [x]) = d_add A (d_sum A xs) x"
  by (simp add: d_sum_def)

lemma loaded_refl: "loaded a s 0 s"
  by (simp add: loaded_def)

lemma loaded_other:
  assumes "loaded a s c t" and "trace t' = trace t @ es" and "loads_of a es = []"
  shows "loaded a s c t'"
proof -
  from assms(1) obtain tr where "trace t = trace s @ tr" "loads_of a tr = [0..c - 1]"
    by (auto simp: loaded_def)
  then have "trace t' = trace s @ (tr @ es) \<and> loads_of a (tr @ es) = [0..c - 1]"
    using assms(2,3) by (simp add: loads_of_append)
  then show ?thesis unfolding loaded_def by blast
qed

lemma loaded_next:
  assumes "loaded a s c t" and "trace t' = trace t @ es" and "loads_of a es = [c]" and "0 \<le> c"
  shows "loaded a s (c + 1) t'"
proof -
  from assms(1) obtain tr where "trace t = trace s @ tr" "loads_of a tr = [0..c - 1]"
    by (auto simp: loaded_def)
  then have "trace t' = trace s @ (tr @ es) \<and> loads_of a (tr @ es) = [0..c + 1 - 1]"
    using assms(2,3,4) by (simp add: loads_of_append upto_rec2)
  then show ?thesis unfolding loaded_def by blast
qed

lemma zero_loop:
  assumes dims: "0 \<le> dim_j" "dim_j \<le> INT_MAX" and len: "nat dim_j \<le> length (heap s out)"
  shows "\<exists>t. for_loop 0 dim_j (\<lambda>j. store out j (d_of_int A 0)) s = Inr ((), t) \<and>
           zeroed A out s dim_j t \<and> loaded a s 0 t"
proof (rule for_loop_inv [where I = "\<lambda>j t. zeroed A out s j t \<and> loaded a s 0 t"])
  show "0 \<le> dim_j" "dim_j \<le> INT_MAX" by fact+
  show "zeroed A out s 0 s \<and> loaded a s 0 s"
    by (auto simp: zeroed_def unchanged_except_def loaded_refl)
next
  fix j t
  assume j: "0 \<le> j" "j < dim_j" and I: "zeroed A out s j t \<and> loaded a s 0 t"
  from I have "length (heap t out) = length (heap s out)"
    by (simp add: zeroed_def unchanged_except_def)
  with j len have ib: "in_bounds t out j" by (intro in_boundsI) auto
  define t' where "t' = t\<lparr>heap := (heap t)(out := (heap t out)[nat j := d_of_int A 0]),
                      trace := trace t @ [Store out j]\<rparr>"
  have r: "store out j (d_of_int A 0) t = Inr ((), t')"
    using ib by (simp add: store_def t'_def)
  from I have "loaded a s 0 t" by simp
  then have "loaded a s 0 t'"
    by (rule loaded_other [where es = "[Store out j]"]) (simp_all add: t'_def)
  moreover have "zeroed A out s (j + 1) t'"
    using I j ib
    apply (simp add: zeroed_def unchanged_except_def in_bounds_def t'_def)
    apply (auto simp: nth_list_update nat_eq_iff)
    done
  ultimately show "\<exists>t'. store out j (d_of_int A 0) t = Inr ((), t') \<and>
         zeroed A out s (j + 1) t' \<and> loaded a s 0 t'"
    using r by blast
qed

lemma zeroed_accumulated:
  assumes "zeroed A out s dim_j t" shows "accumulated A g a out dim_j s 0 0 t"
  using assms by (auto simp: zeroed_def accumulated_def column_0 d_sum_Nil)

lemma accumulated_next_row:
  assumes "accumulated A g a out dim_j s i dim_j t"
  shows "accumulated A g a out dim_j s (i + 1) 0 t"
  using assms by (auto simp: accumulated_def)

lemma stat_mean_inner:
  assumes dims: "0 \<le> i" "i < dim_i" "0 < dim_j"
    and int: "dim_j \<le> INT_MAX" "(i + 1) * dim_j \<le> INT_MAX + 1"
    and len: "nat (dim_i * dim_j) \<le> length (heap s a)" "nat dim_j \<le> length (heap s mean)"
    and ne: "mean \<noteq> a"
    and inv: "accumulated A (\<lambda>_ x. x) a mean dim_j s i 0 t" "loaded a s (i * dim_j) t"
  shows "\<exists>t'. for_loop 0 dim_j (\<lambda>j.
               bind (load mean j) (\<lambda>m.
               bind (int_result (j + i * dim_j)) (\<lambda>k.
               bind (load a k) (\<lambda>x.
               store mean j (d_add A m x))))) t = Inr ((), t') \<and>
         accumulated A (\<lambda>_ x. x) a mean dim_j s (i + 1) 0 t' \<and> loaded a s ((i + 1) * dim_j) t'"
proof -
  let ?body = "\<lambda>j. bind (load mean j) (\<lambda>m. bind (int_result (j + i * dim_j)) (\<lambda>k.
               bind (load a k) (\<lambda>x. store mean j (d_add A m x))))"
  let ?I = "\<lambda>j t. accumulated A (\<lambda>_ x. x) a mean dim_j s i j t \<and> loaded a s (i * dim_j + j) t"
  have "\<exists>t'. for_loop 0 dim_j ?body t = Inr ((), t') \<and> ?I dim_j t'"
  proof (rule for_loop_inv [where I = ?I])
    show "0 \<le> dim_j" using dims by simp
    show "dim_j \<le> INT_MAX" by fact
    show "?I 0 t" using inv by simp
  next
    fix j u
    assume j: "0 \<le> j" "j < dim_j" and I: "?I j u"
    let ?c = "i * dim_j + j"
    from idx_bound [OF dims(1,2) j] have c: "0 \<le> ?c" "?c < dim_i * dim_j" .
    from idx_int [OF dims(1,2) j int(2)] c(1)
    have ov: "int_result (j + i * dim_j) = (\<lambda>v. Inr (?c, v))"
      by (intro ext) (simp add: int_result_nonneg add.commute)
    from I have un: "unchanged_except mean s u" by (simp add: accumulated_def)
    with ne have ha: "heap u a = heap s a"
      and lb: "length (heap u mean) = length (heap s mean)"
      by (auto simp: unchanged_except_def)
    have ia: "in_bounds u a ?c" using c len(1) ha by (intro in_boundsI) auto
    have im: "in_bounds u mean j" using j len(2) lb by (intro in_boundsI) auto
    define u' where "u' = u\<lparr>heap := (heap u)(mean := (heap u mean)
                           [nat j := d_add A (heap u mean ! nat j) (heap s a ! nat ?c)]),
                        trace := trace u @ [Load mean j, Load a ?c, Store mean j]\<rparr>"
    have r: "?body j u = Inr ((), u')"
      using ia im ne by (simp add: bind_def load_def store_def in_bounds_def u'_def ha ov)
    from I have "loaded a s ?c u" by simp
    then have "loaded a s (?c + 1) u'"
      by (rule loaded_next [where es = "[Load mean j, Load a ?c, Store mean j]"])
         (use c(1) ne in \<open>simp_all add: u'_def\<close>)
    moreover have "accumulated A (\<lambda>_ x. x) a mean dim_j s i (j + 1) u'"
      using I j im dims(1)
      apply (simp add: accumulated_def unchanged_except_def in_bounds_def u'_def)
      apply (auto simp: nth_list_update nat_eq_iff column_Suc d_sum_snoc)
      done
    ultimately show "\<exists>t'. ?body j u = Inr ((), t') \<and> ?I (j + 1) t'"
      using r by (simp add: add.assoc)
  qed
  then obtain t' where r: "for_loop 0 dim_j ?body t = Inr ((), t')"
    and acc: "accumulated A (\<lambda>_ x. x) a mean dim_j s i dim_j t'"
    and ld: "loaded a s (i * dim_j + dim_j) t'" by blast
  have "(i + 1) * dim_j = i * dim_j + dim_j" by (simp add: algebra_simps)
  with ld have "loaded a s ((i + 1) * dim_j) t'" by simp
  with r accumulated_next_row [OF acc] show ?thesis by blast
qed

lemma stat_mean_sum:
  assumes dims: "0 < dim_i" "0 < dim_j"
    and int: "dim_i \<le> INT_MAX" "dim_j \<le> INT_MAX" "dim_i * dim_j \<le> INT_MAX + 1"
    and len: "nat (dim_i * dim_j) \<le> length (heap s a)" "nat dim_j \<le> length (heap s mean)"
    and ne: "mean \<noteq> a"
    and inv: "accumulated A (\<lambda>_ x. x) a mean dim_j s 0 0 t" "loaded a s 0 t"
  shows "\<exists>t'. for_loop 0 dim_i (\<lambda>i.
             bind (int_result (i * dim_j)) (\<lambda>n.
             for_loop 0 dim_j (\<lambda>j.
               bind (load mean j) (\<lambda>m.
               bind (int_result (j + n)) (\<lambda>k.
               bind (load a k) (\<lambda>x.
               store mean j (d_add A m x))))))) t = Inr ((), t') \<and>
         accumulated A (\<lambda>_ x. x) a mean dim_j s dim_i 0 t' \<and> loaded a s (dim_i * dim_j) t'"
proof (rule for_loop_inv [where I = "\<lambda>i t. accumulated A (\<lambda>_ x. x) a mean dim_j s i 0 t \<and>
                                         loaded a s (i * dim_j) t"])
  show "0 \<le> dim_i" using dims by simp
  show "dim_i \<le> INT_MAX" by fact
  show "accumulated A (\<lambda>_ x. x) a mean dim_j s 0 0 t \<and> loaded a s (0 * dim_j) t"
    using inv by simp
next
  fix i u
  assume i: "0 \<le> i" "i < dim_i"
    and I: "accumulated A (\<lambda>_ x. x) a mean dim_j s i 0 u \<and> loaded a s (i * dim_j) u"
  from I have acc: "accumulated A (\<lambda>_ x. x) a mean dim_j s i 0 u"
    and ld: "loaded a s (i * dim_j) u" by simp_all
  note row = row_bound [OF i dims(2) int(3)]
  from idx_int(1,2) [OF i _ dims(2) row]
  have ov: "int_result (i * dim_j) u = Inr (i * dim_j, u)"
    by (simp add: int_result_nonneg)
  from stat_mean_inner [OF i dims(2) int(2) row len ne acc ld] ov
  show "\<exists>t'. bind (int_result (i * dim_j)) (\<lambda>n.
             for_loop 0 dim_j (\<lambda>j.
               bind (load mean j) (\<lambda>m.
               bind (int_result (j + n)) (\<lambda>k.
               bind (load a k) (\<lambda>x.
               store mean j (d_add A m x)))))) u = Inr ((), t') \<and>
         accumulated A (\<lambda>_ x. x) a mean dim_j s (i + 1) 0 t' \<and> loaded a s ((i + 1) * dim_j) t'"
    by (simp add: bind_def)
qed

lemma accumulated_finalised:
  assumes "accumulated A g a out dim_j s dim_i 0 t"
  shows "finalised A g F a out dim_i dim_j s 0 t"
  using assms by (auto simp: accumulated_def finalised_def)

lemma stat_mean_divide:
  assumes dims: "0 < dim_j" "dim_j \<le> INT_MAX"
    and len: "nat dim_j \<le> length (heap s mean)"
    and inv: "finalised A g (\<lambda>v. d_div A v (d_of_int A dim_i)) a mean dim_i dim_j s 0 t"
       "loaded a s c t"
    and ne: "mean \<noteq> a"
  shows "\<exists>t'. for_loop 0 dim_j (\<lambda>j.
           bind (load mean j) (\<lambda>m.
           store mean j (d_div A m (d_of_int A dim_i)))) t = Inr ((), t') \<and>
         finalised A g (\<lambda>v. d_div A v (d_of_int A dim_i)) a mean dim_i dim_j s dim_j t' \<and>
         loaded a s c t'"
proof (rule for_loop_inv [where I = "\<lambda>j t.
         finalised A g (\<lambda>v. d_div A v (d_of_int A dim_i)) a mean dim_i dim_j s j t \<and>
         loaded a s c t"])
  show "0 \<le> dim_j" using dims by simp
  show "dim_j \<le> INT_MAX" by fact
  show "finalised A g (\<lambda>v. d_div A v (d_of_int A dim_i)) a mean dim_i dim_j s 0 t \<and>
        loaded a s c t" using inv by simp
next
  fix j u
  let ?F = "\<lambda>v. d_div A v (d_of_int A dim_i)"
  assume j: "0 \<le> j" "j < dim_j" and I: "finalised A g ?F a mean dim_i dim_j s j u \<and> loaded a s c u"
  from I have "length (heap u mean) = length (heap s mean)"
    by (simp add: finalised_def unchanged_except_def)
  with j len have im: "in_bounds u mean j" by (intro in_boundsI) auto
  define u' where "u' = u\<lparr>heap := (heap u)(mean := (heap u mean)[nat j := ?F (heap u mean ! nat j)]),
                        trace := trace u @ [Load mean j, Store mean j]\<rparr>"
  have r: "bind (load mean j) (\<lambda>m. store mean j (?F m)) u = Inr ((), u')"
    using im by (simp add: bind_def load_def store_def in_bounds_def u'_def)
  from I have "loaded a s c u" by simp
  then have "loaded a s c u'"
    by (rule loaded_other [where es = "[Load mean j, Store mean j]"])
       (use ne in \<open>simp_all add: u'_def\<close>)
  moreover have "finalised A g ?F a mean dim_i dim_j s (j + 1) u'"
    using I j im
    apply (simp add: finalised_def unchanged_except_def in_bounds_def u'_def Let_def)
    apply (auto simp: nth_list_update nat_eq_iff)
    done
  ultimately show "\<exists>t'. bind (load mean j) (\<lambda>m. store mean j (?F m)) u = Inr ((), t') \<and>
      finalised A g ?F a mean dim_i dim_j s (j + 1) t' \<and> loaded a s c t'"
    using r by blast
qed

lemma stat_mean_effect:
  assumes dims: "0 < dim_i" "0 < dim_j"
    and int: "dim_i \<le> INT_MAX" "dim_j \<le> INT_MAX" "dim_i * dim_j \<le> INT_MAX + 1"
    and len: "nat (dim_i * dim_j) \<le> length (heap s a)" "nat dim_j \<le> length (heap s mean)"
    and ne: "mean \<noteq> a"
  shows "\<exists>s'. stat_mean A a mean dim_i dim_j s = Inr ((), s') \<and>
           finalised A (\<lambda>_ x. x) (\<lambda>v. d_div A v (d_of_int A dim_i)) a mean dim_i dim_j s dim_j s' \<and>
           loaded a s (dim_i * dim_j) s'"
proof -
  from dims(2) have "0 \<le> dim_j" by simp
  note max = int(2)
  from zero_loop [OF \<open>0 \<le> dim_j\<close> max len(2), of A a]
  obtain t1 where r1: "for_loop 0 dim_j (\<lambda>j. store mean j (d_of_int A 0)) s = Inr ((), t1)"
    and z: "zeroed A mean s dim_j t1" and l1: "loaded a s 0 t1" by blast
  from stat_mean_sum [OF dims int len ne zeroed_accumulated [OF z] l1]
  obtain t2 where r2: "for_loop 0 dim_i (\<lambda>i.
             bind (int_result (i * dim_j)) (\<lambda>n.
             for_loop 0 dim_j (\<lambda>j.
               bind (load mean j) (\<lambda>m.
               bind (int_result (j + n)) (\<lambda>k.
               bind (load a k) (\<lambda>x.
               store mean j (d_add A m x))))))) t1 = Inr ((), t2)"
    and acc: "accumulated A (\<lambda>_ x. x) a mean dim_j s dim_i 0 t2"
    and l2: "loaded a s (dim_i * dim_j) t2" by blast
  from stat_mean_divide [OF dims(2) max len(2) accumulated_finalised [OF acc] l2 ne]
  obtain t3 where r3: "for_loop 0 dim_j (\<lambda>j.
           bind (load mean j) (\<lambda>m.
           store mean j (d_div A m (d_of_int A dim_i)))) t2 = Inr ((), t3)"
    and f: "finalised A (\<lambda>_ x. x) (\<lambda>v. d_div A v (d_of_int A dim_i)) a mean dim_i dim_j s dim_j t3"
    and l3: "loaded a s (dim_i * dim_j) t3" by blast
  have "stat_mean A a mean dim_i dim_j s = Inr ((), t3)"
    using r1 r2 r3 by (simp add: stat_mean_def bind_def)
  with f l3 show ?thesis by blast
qed

section \<open>The loops of stat_std\<close>

lemma stat_std_inner:
  assumes dims: "0 \<le> i" "i < dim_i" "0 < dim_j"
    and int: "dim_j \<le> INT_MAX" "(i + 1) * dim_j \<le> INT_MAX + 1"
    and len: "nat (dim_i * dim_j) \<le> length (heap s a)" "nat dim_j \<le> length (heap s mean)"
      "nat dim_j \<le> length (heap s std)"
    and ne: "std \<noteq> a" "std \<noteq> mean"
    and inv: "accumulated A (\<lambda>k. sq_dev A (heap s mean ! nat k)) a std dim_j s i 0 t"
  shows "\<exists>t'. for_loop 0 dim_j (\<lambda>j.
               bind (load std j) (\<lambda>acc.
               bind (int_result (j + i * dim_j)) (\<lambda>k.
               bind (load a k) (\<lambda>x.
               bind (load mean j) (\<lambda>m.
               bind (int_result (j + i * dim_j)) (\<lambda>k'.
               bind (load a k') (\<lambda>x'.
               bind (load mean j) (\<lambda>m'.
               store std j (d_add A acc (d_mul A (d_sub A x m) (d_sub A x' m'))))))))))) t
           = Inr ((), t') \<and>
         accumulated A (\<lambda>k. sq_dev A (heap s mean ! nat k)) a std dim_j s (i + 1) 0 t'"
proof -
  let ?g = "\<lambda>k. sq_dev A (heap s mean ! nat k)"
  let ?body = "\<lambda>j. bind (load std j) (\<lambda>acc.
               bind (int_result (j + i * dim_j)) (\<lambda>k.
               bind (load a k) (\<lambda>x.
               bind (load mean j) (\<lambda>m.
               bind (int_result (j + i * dim_j)) (\<lambda>k'.
               bind (load a k') (\<lambda>x'.
               bind (load mean j) (\<lambda>m'.
               store std j (d_add A acc (d_mul A (d_sub A x m) (d_sub A x' m'))))))))))"
  have "\<exists>t'. for_loop 0 dim_j ?body t = Inr ((), t') \<and> accumulated A ?g a std dim_j s i dim_j t'"
  proof (rule for_loop_inv [where I = "accumulated A ?g a std dim_j s i"])
    show "0 \<le> dim_j" using dims by simp
    show "dim_j \<le> INT_MAX" by fact
    show "accumulated A ?g a std dim_j s i 0 t" by fact
  next
    fix j u
    assume j: "0 \<le> j" "j < dim_j" and I: "accumulated A ?g a std dim_j s i j u"
    let ?c = "i * dim_j + j"
    from idx_bound [OF dims(1,2) j] have c: "0 \<le> ?c" "?c < dim_i * dim_j" .
    from idx_int [OF dims(1,2) j int(2)] c(1)
    have ov: "int_result (j + i * dim_j) = (\<lambda>v. Inr (?c, v))"
      by (intro ext) (simp add: int_result_nonneg add.commute)
    from I have un: "unchanged_except std s u" by (simp add: accumulated_def)
    with ne have ha: "heap u a = heap s a" and hm: "heap u mean = heap s mean"
      and lb: "length (heap u std) = length (heap s std)"
      by (auto simp: unchanged_except_def)
    have ia: "in_bounds u a ?c" using c len(1) ha by (intro in_boundsI) auto
    have im: "in_bounds u mean j" using j len(2) hm by (intro in_boundsI) auto
    have isd: "in_bounds u std j" using j len(3) lb by (intro in_boundsI) auto
    define u' where "u' = u\<lparr>heap := (heap u)(std := (heap u std)
                           [nat j := d_add A (heap u std ! nat j) (?g j (heap s a ! nat ?c))]),
                        trace := trace u @ [Load std j, Load a ?c, Load mean j, Load a ?c,
                                            Load mean j, Store std j]\<rparr>"
    have r: "?body j u = Inr ((), u')"
      using ia im isd ne
      by (simp add: bind_def load_def store_def in_bounds_def u'_def ha hm ov sq_dev_def)
    have "accumulated A ?g a std dim_j s i (j + 1) u'"
      using I j isd dims(1)
      apply (simp add: accumulated_def unchanged_except_def in_bounds_def u'_def)
      apply (auto simp: nth_list_update nat_eq_iff column_Suc d_sum_snoc)
      done
    with r show "\<exists>t'. ?body j u = Inr ((), t') \<and> accumulated A ?g a std dim_j s i (j + 1) t'"
      by blast
  qed
  then obtain t' where r: "for_loop 0 dim_j ?body t = Inr ((), t')"
    and acc: "accumulated A ?g a std dim_j s i dim_j t'" by blast
  with accumulated_next_row [OF acc] show ?thesis by blast
qed

lemma stat_std_sum:
  assumes dims: "0 < dim_i" "0 < dim_j"
    and int: "dim_i \<le> INT_MAX" "dim_j \<le> INT_MAX" "dim_i * dim_j \<le> INT_MAX + 1"
    and len: "nat (dim_i * dim_j) \<le> length (heap s a)" "nat dim_j \<le> length (heap s mean)"
      "nat dim_j \<le> length (heap s std)"
    and ne: "std \<noteq> a" "std \<noteq> mean"
    and inv: "accumulated A (\<lambda>k. sq_dev A (heap s mean ! nat k)) a std dim_j s 0 0 t"
  shows "\<exists>t'. for_loop 0 dim_i (\<lambda>i.
             bind (int_result (i * dim_j)) (\<lambda>n.
             for_loop 0 dim_j (\<lambda>j.
               bind (load std j) (\<lambda>acc.
               bind (int_result (j + n)) (\<lambda>k.
               bind (load a k) (\<lambda>x.
               bind (load mean j) (\<lambda>m.
               bind (int_result (j + n)) (\<lambda>k'.
               bind (load a k') (\<lambda>x'.
               bind (load mean j) (\<lambda>m'.
               store std j (d_add A acc (d_mul A (d_sub A x m) (d_sub A x' m'))))))))))))) t
           = Inr ((), t') \<and>
         accumulated A (\<lambda>k. sq_dev A (heap s mean ! nat k)) a std dim_j s dim_i 0 t'"
proof (rule for_loop_inv [where I = "\<lambda>i. accumulated A (\<lambda>k. sq_dev A (heap s mean ! nat k)) a std dim_j s i 0"])
  show "0 \<le> dim_i" using dims by simp
  show "dim_i \<le> INT_MAX" by fact
  show "accumulated A (\<lambda>k. sq_dev A (heap s mean ! nat k)) a std dim_j s 0 0 t" by fact
next
  fix i u
  assume i: "0 \<le> i" "i < dim_i"
    and I: "accumulated A (\<lambda>k. sq_dev A (heap s mean ! nat k)) a std dim_j s i 0 u"
  note row = row_bound [OF i dims(2) int(3)]
  from idx_int(1,2) [OF i _ dims(2) row]
  have ov: "int_result (i * dim_j) u = Inr (i * dim_j, u)"
    by (simp add: int_result_nonneg)
  from stat_std_inner [OF i dims(2) int(2) row len ne I] ov
  show "\<exists>t'. bind (int_result (i * dim_j)) (\<lambda>n.
             for_loop 0 dim_j (\<lambda>j.
               bind (load std j) (\<lambda>acc.
               bind (int_result (j + n)) (\<lambda>k.
               bind (load a k) (\<lambda>x.
               bind (load mean j) (\<lambda>m.
               bind (int_result (j + n)) (\<lambda>k'.
               bind (load a k') (\<lambda>x'.
               bind (load mean j) (\<lambda>m'.
               store std j (d_add A acc (d_mul A (d_sub A x m) (d_sub A x' m')))))))))))) u
           = Inr ((), t') \<and>
         accumulated A (\<lambda>k. sq_dev A (heap s mean ! nat k)) a std dim_j s (i + 1) 0 t'"
    by (simp add: bind_def)
qed

lemma stat_std_root:
  assumes dims: "0 < dim_j" "dim_j \<le> INT_MAX" "0 < dim_i" "dim_i \<le> INT_MAX"
    and len: "nat dim_j \<le> length (heap s std)"
    and inv: "finalised A g (\<lambda>v. d_sqrt A (d_div A v (d_of_int A (dim_i - 1)))) a std dim_i dim_j s 0 t"
  shows "\<exists>t'. for_loop 0 dim_j (\<lambda>j.
       bind (load std j) (\<lambda>v.
       bind (int_result (dim_i - 1)) (\<lambda>d.
       bind (store std j (d_div A v (d_of_int A d))) (\<lambda>_.
       bind (load std j) (\<lambda>w.
       store std j (d_sqrt A w)))))) t = Inr ((), t') \<and>
         finalised A g (\<lambda>v. d_sqrt A (d_div A v (d_of_int A (dim_i - 1)))) a std dim_i dim_j s dim_j t'"
proof (rule for_loop_inv [where I =
         "finalised A g (\<lambda>v. d_sqrt A (d_div A v (d_of_int A (dim_i - 1)))) a std dim_i dim_j s"])
  show "0 \<le> dim_j" using dims by simp
  show "dim_j \<le> INT_MAX" by fact
  show "finalised A g (\<lambda>v. d_sqrt A (d_div A v (d_of_int A (dim_i - 1)))) a std dim_i dim_j s 0 t"
    by fact
next
  fix j u
  let ?F = "\<lambda>v. d_sqrt A (d_div A v (d_of_int A (dim_i - 1)))"
  let ?body = "\<lambda>j. bind (load std j) (\<lambda>v.
       bind (int_result (dim_i - 1)) (\<lambda>d.
       bind (store std j (d_div A v (d_of_int A d))) (\<lambda>_.
       bind (load std j) (\<lambda>w.
       store std j (d_sqrt A w)))))"
  assume j: "0 \<le> j" "j < dim_j" and I: "finalised A g ?F a std dim_i dim_j s j u"
  from I have "length (heap u std) = length (heap s std)"
    by (simp add: finalised_def unchanged_except_def)
  with j len have isd: "in_bounds u std j" by (intro in_boundsI) auto
  define u' where "u' = u\<lparr>heap := (heap u)(std := (heap u std)[nat j := ?F (heap u std ! nat j)]),
                        trace := trace u @ [Load std j, Store std j, Load std j, Store std j]\<rparr>"
  from isd have nj: "nat j < length (heap u std)" unfolding in_bounds_def by linarith
  from dims have ov: "int_result (dim_i - 1) = (\<lambda>v. Inr (dim_i - 1, v))"
    by (intro ext) (simp add: int_result_nonneg)
  have r: "?body j u = Inr ((), u')"
    using isd nj by (simp add: bind_def load_def store_def in_bounds_def u'_def ov)
  have "finalised A g ?F a std dim_i dim_j s (j + 1) u'"
    using I j isd
    apply (simp add: finalised_def unchanged_except_def in_bounds_def u'_def Let_def)
    apply (auto simp: nth_list_update nat_eq_iff)
    done
  with r show "\<exists>t'. ?body j u = Inr ((), t') \<and> finalised A g ?F a std dim_i dim_j s (j + 1) t'"
    by blast
qed

lemma stat_std_effect:
  assumes dims: "0 < dim_i" "0 < dim_j"
    and int: "dim_i \<le> INT_MAX" "dim_j \<le> INT_MAX" "dim_i * dim_j \<le> INT_MAX + 1"
    and len: "nat (dim_i * dim_j) \<le> length (heap s a)" "nat dim_j \<le> length (heap s mean)"
      "nat dim_j \<le> length (heap s std)"
    and ne: "std \<noteq> a" "std \<noteq> mean"
  shows "\<exists>s'. stat_std A a mean std dim_i dim_j s = Inr ((), s') \<and>
           finalised A (\<lambda>k. sq_dev A (heap s mean ! nat k))
             (\<lambda>v. d_sqrt A (d_div A v (d_of_int A (dim_i - 1)))) a std dim_i dim_j s dim_j s'"
proof -
  from dims(2) have "0 \<le> dim_j" by simp
  note max = int(1,2)
  from zero_loop [OF \<open>0 \<le> dim_j\<close> max(2) len(3), of A a]
  obtain t1 where r1: "for_loop 0 dim_j (\<lambda>j. store std j (d_of_int A 0)) s = Inr ((), t1)"
    and z: "zeroed A std s dim_j t1" by blast
  from stat_std_sum [OF dims int len ne zeroed_accumulated [OF z]]
  obtain t2 where r2: "for_loop 0 dim_i (\<lambda>i.
             bind (int_result (i * dim_j)) (\<lambda>n.
             for_loop 0 dim_j (\<lambda>j.
               bind (load std j) (\<lambda>acc.
               bind (int_result (j + n)) (\<lambda>k.
               bind (load a k) (\<lambda>x.
               bind (load mean j) (\<lambda>m.
               bind (int_result (j + n)) (\<lambda>k'.
               bind (load a k') (\<lambda>x'.
               bind (load mean j) (\<lambda>m'.
               store std j (d_add A acc (d_mul A (d_sub A x m) (d_sub A x' m'))))))))))))) t1
           = Inr ((), t2)"
    and acc: "accumulated A (\<lambda>k. sq_dev A (heap s mean ! nat k)) a std dim_j s dim_i 0 t2"
    by blast
  from stat_std_root [OF dims(2) max(2) dims(1) max(1) len(3) accumulated_finalised [OF acc]]
  obtain t3 where r3: "for_loop 0 dim_j (\<lambda>j.
       bind (load std j) (\<lambda>v.
       bind (int_result (dim_i - 1)) (\<lambda>d.
       bind (store std j (d_div A v (d_of_int A d))) (\<lambda>_.
       bind (load std j) (\<lambda>w.
       store std j (d_sqrt A w)))))) t2 = Inr ((), t3)"
    and f: "finalised A (\<lambda>k. sq_dev A (heap s mean ! nat k))
             (\<lambda>v. d_sqrt A (d_div A v (d_of_int A (dim_i - 1)))) a std dim_i dim_j s dim_j t3"
    by blast
  have "stat_std A a mean std dim_i dim_j s = Inr ((), t3)"
    using r1 r2 r3 by (simp add: stat_std_def bind_def)
  with f show ?thesis by blast
qed

section \<open>The loops of remove_mean_col\<close>

lemma centred_inner:
  assumes dims: "0 \<le> i" "i < dim_i" "0 < dim_j"
    and int: "dim_j \<le> INT_MAX" "(i + 1) * dim_j \<le> INT_MAX + 1"
    and len: "nat (dim_i * dim_j) \<le> length (heap s a)" "nat dim_j \<le> length (heap s mean)"
       "nat (dim_i * dim_j) \<le> length (heap s b)"
    and ne: "b \<noteq> a" "b \<noteq> mean"
    and inv: "centred A a mean b dim_j s (i * dim_j) t"
  shows "\<exists>t'. for_loop 0 dim_j (\<lambda>j.
         bind (int_result (i * dim_j)) (\<lambda>p.
         bind (int_result (p + j)) (\<lambda>k.
         bind (load a k) (\<lambda>x.
         bind (load mean j) (\<lambda>m.
         bind (int_result (i * dim_j)) (\<lambda>p'.
         bind (int_result (p' + j)) (\<lambda>k'.
         store b k' (d_sub A x m)))))))) t = Inr ((), t') \<and>
         centred A a mean b dim_j s ((i + 1) * dim_j) t'"
proof -
  let ?I = "\<lambda>j t. centred A a mean b dim_j s (i * dim_j + j) t"
  have "\<exists>t'. for_loop 0 dim_j (\<lambda>j.
         bind (int_result (i * dim_j)) (\<lambda>p.
         bind (int_result (p + j)) (\<lambda>k.
         bind (load a k) (\<lambda>x.
         bind (load mean j) (\<lambda>m.
         bind (int_result (i * dim_j)) (\<lambda>p'.
         bind (int_result (p' + j)) (\<lambda>k'.
         store b k' (d_sub A x m)))))))) t = Inr ((), t') \<and> ?I dim_j t'"
  proof (rule for_loop_inv [where I = ?I])
    show "0 \<le> dim_j" using dims by simp
    show "dim_j \<le> INT_MAX" by fact
    show "?I 0 t" using inv by simp
  next
    fix j u
    assume j: "0 \<le> j" "j < dim_j" and I: "?I j u"
    let ?c = "i * dim_j + j"
    from idx_bound [OF dims(1,2) j] have c: "0 \<le> ?c" "?c < dim_i * dim_j" .
    from I have un: "unchanged_except b s u" by (simp add: centred_def)
    with ne have ha: "heap u a = heap s a" and hm: "heap u mean = heap s mean"
      and lb: "length (heap u b) = length (heap s b)"
      by (auto simp: unchanged_except_def)
    have ia: "in_bounds u a ?c" using c len(1) ha by (intro in_boundsI) auto
    have im: "in_bounds u mean j" using j len(2) hm by (intro in_boundsI) auto
    have ib: "in_bounds u b ?c" using c len(3) lb by (intro in_boundsI) auto
    have md: "?c mod dim_j = j" using j by simp
    from idx_int [OF dims(1,2) j int(2)] c(1)
    have ov: "int_result (i * dim_j) = (\<lambda>v. Inr (i * dim_j, v))"
      "int_result ?c = (\<lambda>v. Inr (?c, v))"
      by (intro ext, simp add: int_result_nonneg)+
    show "\<exists>t'. bind (int_result (i * dim_j)) (\<lambda>p.
         bind (int_result (p + j)) (\<lambda>k.
         bind (load a k) (\<lambda>x.
         bind (load mean j) (\<lambda>m.
         bind (int_result (i * dim_j)) (\<lambda>p'.
         bind (int_result (p' + j)) (\<lambda>k'.
         store b k' (d_sub A x m))))))) u = Inr ((), t')
              \<and> ?I (j + 1) t'"
      using ia im ib I c ne md
      apply (simp add: bind_def load_def store_def in_bounds_def centred_def unchanged_except_def ha hm
          ov)
      apply (auto simp: nth_list_update nat_eq_iff)
      done
  qed
  then show ?thesis by (simp add: algebra_simps)
qed

lemma centred_outer:
  assumes dims: "0 < dim_i" "0 < dim_j"
    and int: "dim_i \<le> INT_MAX" "dim_j \<le> INT_MAX" "dim_i * dim_j \<le> INT_MAX + 1"
    and len: "nat (dim_i * dim_j) \<le> length (heap s a)" "nat dim_j \<le> length (heap s mean)"
       "nat (dim_i * dim_j) \<le> length (heap s b)"
    and ne: "b \<noteq> a" "b \<noteq> mean"
  shows "\<exists>s'. remove_mean_col A a mean b dim_i dim_j s = Inr ((), s') \<and>
         centred A a mean b dim_j s (dim_i * dim_j) s'"
  unfolding remove_mean_col_def
proof (rule for_loop_inv [where I = "\<lambda>i. centred A a mean b dim_j s (i * dim_j)"])
  show "0 \<le> dim_i" using dims by simp
  show "dim_i \<le> INT_MAX" by fact
  show "centred A a mean b dim_j s (0 * dim_j) s"
    by (auto simp: centred_def unchanged_except_def)
next
  fix i t
  assume i: "0 \<le> i" "i < dim_i" and inv: "centred A a mean b dim_j s (i * dim_j) t"
  show "\<exists>t'. for_loop 0 dim_j (\<lambda>j.
         bind (int_result (i * dim_j)) (\<lambda>p.
         bind (int_result (p + j)) (\<lambda>k.
         bind (load a k) (\<lambda>x.
         bind (load mean j) (\<lambda>m.
         bind (int_result (i * dim_j)) (\<lambda>p'.
         bind (int_result (p' + j)) (\<lambda>k'.
         store b k' (d_sub A x m)))))))) t = Inr ((), t') \<and>
         centred A a mean b dim_j s ((i + 1) * dim_j) t'"
    by (rule centred_inner [OF i dims(2) int(2) row_bound [OF i dims(2) int(3)] len ne inv])
qed

section \<open>The loops of modify_mean_stddev\<close>

text \<open>
  Where the write offset \<open>i * dim_i + j\<close> is the read offset \<open>i * dim_j + j\<close> in every
  row, that is for a square matrix and for a single row, each element of a matrix that
  \<^verbatim>\<open>int\<close> can index is replaced by its old value times \<open>new_stddev\<close> plus \<open>new_mean\<close>.
\<close>

lemma rescaled_inner:
  assumes dims: "0 \<le> i" "i < dim_i" "0 < dim_j"
    and int: "dim_j \<le> INT_MAX" "(i + 1) * dim_j \<le> INT_MAX + 1"
    and stride: "i * dim_i = i * dim_j"
    and len: "nat (dim_i * dim_j) \<le> length (heap s mtx)"
    and inv: "rescaled A mtx new_mean new_stddev s (i * dim_j) t"
  shows "\<exists>t'. for_loop 0 dim_j (\<lambda>j.
         bind (int_result (i * dim_j)) (\<lambda>p.
         bind (int_result (p + j)) (\<lambda>k.
         bind (load mtx k) (\<lambda>x.
         bind (int_result (i * dim_i)) (\<lambda>p'.
         bind (int_result (p' + j)) (\<lambda>k'.
         store mtx k' (d_add A (d_mul A x new_stddev) new_mean))))))) t = Inr ((), t') \<and>
         rescaled A mtx new_mean new_stddev s ((i + 1) * dim_j) t'"
proof -
  let ?body = "\<lambda>j. bind (int_result (i * dim_j)) (\<lambda>p.
         bind (int_result (p + j)) (\<lambda>k.
         bind (load mtx k) (\<lambda>x.
         bind (int_result (i * dim_i)) (\<lambda>p'.
         bind (int_result (p' + j)) (\<lambda>k'.
         store mtx k' (d_add A (d_mul A x new_stddev) new_mean))))))"
  let ?I = "\<lambda>j t. rescaled A mtx new_mean new_stddev s (i * dim_j + j) t"
  have "\<exists>t'. for_loop 0 dim_j ?body t = Inr ((), t') \<and> ?I dim_j t'"
  proof (rule for_loop_inv [where I = ?I])
    show "0 \<le> dim_j" using dims by simp
    show "dim_j \<le> INT_MAX" by fact
    show "?I 0 t" using inv by simp
  next
    fix j u
    assume j: "0 \<le> j" "j < dim_j" and I: "?I j u"
    let ?c = "i * dim_j + j"
    from idx_bound [OF dims(1,2) j] have c: "0 \<le> ?c" "?c < dim_i * dim_j" .
    from I have "length (heap u mtx) = length (heap s mtx)"
      by (simp add: rescaled_def unchanged_except_def)
    with c len have ib: "in_bounds u mtx ?c" by (intro in_boundsI) auto
    from idx_int [OF dims(1,2) j int(2)] c(1)
    have ov: "int_result (i * dim_j) = (\<lambda>v. Inr (i * dim_j, v))"
      "int_result ?c = (\<lambda>v. Inr (?c, v))"
      by (intro ext, simp add: int_result_nonneg)+
    show "\<exists>t'. ?body j u = Inr ((), t') \<and> ?I (j + 1) t'"
      using ib I c
      apply (simp add: bind_def load_def store_def in_bounds_def rescaled_def unchanged_except_def
          stride ov)
      apply (auto simp: nth_list_update nat_eq_iff)
      done
  qed
  then show ?thesis by (simp add: algebra_simps)
qed

lemma modify_mean_stddev_same_stride:
  assumes "1 \<le> dim_i" and "1 \<le> dim_j" and "dim_i = dim_j \<or> dim_i = 1"
    and int: "dim_i \<le> INT_MAX" "dim_j \<le> INT_MAX" "dim_i * dim_j \<le> INT_MAX + 1"
    and len: "length (heap s mtx) = nat (dim_i * dim_j)"
  shows "\<exists>s'. modify_mean_stddev A mtx new_mean new_stddev dim_i dim_j s = Inr ((), s') \<and>
           length (heap s' mtx) = nat (dim_i * dim_j) \<and>
           (\<forall>i j. 0 \<le> i \<and> i < dim_i \<and> 0 \<le> j \<and> j < dim_j \<longrightarrow>
              heap s' mtx ! nat (i * dim_j + j) =
                d_add A (d_mul A (heap s mtx ! nat (i * dim_j + j)) new_stddev) new_mean)"
proof -
  have "\<exists>s'. modify_mean_stddev A mtx new_mean new_stddev dim_i dim_j s = Inr ((), s') \<and>
      rescaled A mtx new_mean new_stddev s (dim_i * dim_j) s'"
    unfolding modify_mean_stddev_def
  proof (rule for_loop_inv [where I = "\<lambda>i. rescaled A mtx new_mean new_stddev s (i * dim_j)"])
    show "0 \<le> dim_i" using assms by simp
    show "dim_i \<le> INT_MAX" by fact
    show "rescaled A mtx new_mean new_stddev s (0 * dim_j) s"
      by (auto simp: rescaled_def unchanged_except_def)
  next
    fix i t
    assume i: "0 \<le> i" "i < dim_i" and inv: "rescaled A mtx new_mean new_stddev s (i * dim_j) t"
    from assms(3) i have stride: "i * dim_i = i * dim_j" by auto
    from assms have dj: "0 < dim_j" and l: "nat (dim_i * dim_j) \<le> length (heap s mtx)" by auto
    show "\<exists>t'. for_loop 0 dim_j (\<lambda>j.
         bind (int_result (i * dim_j)) (\<lambda>p.
         bind (int_result (p + j)) (\<lambda>k.
         bind (load mtx k) (\<lambda>x.
         bind (int_result (i * dim_i)) (\<lambda>p'.
         bind (int_result (p' + j)) (\<lambda>k'.
         store mtx k' (d_add A (d_mul A x new_stddev) new_mean))))))) t = Inr ((), t') \<and>
         rescaled A mtx new_mean new_stddev s ((i + 1) * dim_j) t'"
      by (rule rescaled_inner [OF i dj int(2) row_bound [OF i dj int(3)] stride l inv])
  qed
  then obtain s' where r: "modify_mean_stddev A mtx new_mean new_stddev dim_i dim_j s = Inr ((), s')"
    and c: "rescaled A mtx new_mean new_stddev s (dim_i * dim_j) s'" by blast
  have "heap s' mtx ! nat (i * dim_j + j) =
          d_add A (d_mul A (heap s mtx ! nat (i * dim_j + j)) new_stddev) new_mean"
    if "0 \<le> i" "i < dim_i" "0 \<le> j" "j < dim_j" for i j
  proof -
    from idx_bound [OF that] have "0 \<le> i * dim_j + j" "i * dim_j + j < dim_i * dim_j" .
    then show ?thesis using c by (auto simp: rescaled_def)
  qed
  moreover have "length (heap s' mtx) = nat (dim_i * dim_j)"
    using c len by (simp add: rescaled_def unchanged_except_def)
  ultimately show ?thesis using r by blast
qed

text \<open>
  With more rows than columns the last row is written beyond the matrix: where \<^verbatim>\<open>int\<close>
  can hold every offset, the run ends in the out-of-bounds branch of a store, in that row
  at the latest.
\<close>

lemma modify_inner_or_fail:
  fixes t :: "'d state"
  assumes i: "0 \<le> i" "i < dim_i" and dj: "0 < dim_j"
    and int: "dim_j \<le> INT_MAX" "(i + 1) * dim_j \<le> INT_MAX + 1" "i * dim_i + dim_j \<le> INT_MAX + 1"
    and len: "length (heap t mtx) = nat (dim_i * dim_j)"
  shows "(\<exists>t'. for_loop 0 dim_j (\<lambda>j.
            bind (int_result (i * dim_j)) (\<lambda>p.
            bind (int_result (p + j)) (\<lambda>k.
            bind (load mtx k) (\<lambda>x.
            bind (int_result (i * dim_i)) (\<lambda>p'.
            bind (int_result (p' + j)) (\<lambda>k'.
            store mtx k' (d_add A (d_mul A x new_stddev) new_mean))))))) t = Inr ((), t') \<and>
            length (heap t' mtx) = nat (dim_i * dim_j)) \<or>
         (\<exists>e. for_loop 0 dim_j (\<lambda>j.
            bind (int_result (i * dim_j)) (\<lambda>p.
            bind (int_result (p + j)) (\<lambda>k.
            bind (load mtx k) (\<lambda>x.
            bind (int_result (i * dim_i)) (\<lambda>p'.
            bind (int_result (p' + j)) (\<lambda>k'.
            store mtx k' (d_add A (d_mul A x new_stddev) new_mean))))))) t = Inl e \<and>
            (\<exists>k. e = Out_of_bounds mtx k \<and> dim_i * dim_j \<le> k))"
proof (rule for_loop_inv_or_fail
    [where I = "\<lambda>j (t::'d state). length (heap t mtx) = nat (dim_i * dim_j)"])
  show "0 \<le> dim_j" using dj by simp
  show "dim_j \<le> INT_MAX" by fact
  show "length (heap t mtx) = nat (dim_i * dim_j)" by fact
next
  fix j and u :: "'d state"
  assume j: "0 \<le> j" "j < dim_j" and l: "length (heap u mtx) = nat (dim_i * dim_j)"
  from idx_bound [OF i j] have c: "0 \<le> i * dim_j + j" "i * dim_j + j < dim_i * dim_j" .
  with l have ib: "in_bounds u mtx (i * dim_j + j)" by (intro in_boundsI) auto
  have w: "0 \<le> i * dim_i + j" "0 \<le> i * dim_i" using i j by simp_all
  from idx_int [OF i j int(2)] c(1) w int(3) j
  have ov: "int_result (i * dim_j) = (\<lambda>v. Inr (i * dim_j, v))"
    "int_result (i * dim_j + j) = (\<lambda>v. Inr (i * dim_j + j, v))"
    "int_result (i * dim_i) = (\<lambda>v. Inr (i * dim_i, v))"
    "int_result (i * dim_i + j) = (\<lambda>v. Inr (i * dim_i + j, v))"
    by (intro ext, simp add: int_result_nonneg)+
  show "(\<exists>t'. bind (int_result (i * dim_j)) (\<lambda>p.
            bind (int_result (p + j)) (\<lambda>k.
            bind (load mtx k) (\<lambda>x.
            bind (int_result (i * dim_i)) (\<lambda>p'.
            bind (int_result (p' + j)) (\<lambda>k'.
            store mtx k' (d_add A (d_mul A x new_stddev) new_mean)))))) u = Inr ((), t') \<and>
            length (heap t' mtx) = nat (dim_i * dim_j)) \<or>
        (\<exists>e. bind (int_result (i * dim_j)) (\<lambda>p.
            bind (int_result (p + j)) (\<lambda>k.
            bind (load mtx k) (\<lambda>x.
            bind (int_result (i * dim_i)) (\<lambda>p'.
            bind (int_result (p' + j)) (\<lambda>k'.
            store mtx k' (d_add A (d_mul A x new_stddev) new_mean)))))) u = Inl e \<and>
            (\<exists>k. e = Out_of_bounds mtx k \<and> dim_i * dim_j \<le> k))"
    using ib w l c by (auto simp: bind_def load_def store_def in_bounds_def ov)
qed

lemma modify_mean_stddev_overrun:
  fixes s :: "'d state"
  assumes "1 \<le> dim_j" and "dim_j < dim_i" and int: "dim_i * dim_i \<le> INT_MAX"
    and len: "length (heap s mtx) = nat (dim_i * dim_j)"
  shows "\<exists>k. modify_mean_stddev A mtx new_mean new_stddev dim_i dim_j s = Inl (Out_of_bounds mtx k) \<and>
           dim_i * dim_j \<le> k"
proof -
  let ?inner = "\<lambda>i. for_loop 0 dim_j (\<lambda>j.
            bind (int_result (i * dim_j)) (\<lambda>p.
            bind (int_result (p + j)) (\<lambda>k.
            bind (load mtx k) (\<lambda>x.
            bind (int_result (i * dim_i)) (\<lambda>p'.
            bind (int_result (p' + j)) (\<lambda>k'.
            store mtx k' (d_add A (d_mul A x new_stddev) new_mean)))))))"
  let ?I = "\<lambda>i (t::'d state). length (heap t mtx) = nat (dim_i * dim_j) \<and> i \<le> dim_i - 1"
  let ?E = "\<lambda>e. \<exists>k. e = Out_of_bounds mtx k \<and> dim_i * dim_j \<le> k"
  have "(\<exists>s'. for_loop 0 dim_i ?inner s = Inr ((), s') \<and> ?I dim_i s') \<or>
        (\<exists>e. for_loop 0 dim_i ?inner s = Inl e \<and> ?E e)"
  proof (rule for_loop_inv_or_fail [where I = ?I])
    show "0 \<le> dim_i" using assms by simp
    show "dim_i \<le> INT_MAX" using dims_int(1) [OF _ _ int] assms(1,2) by simp
    show "?I 0 s" using assms by simp
  next
    fix i and t :: "'d state"
    assume i: "0 \<le> i" "i < dim_i" and I: "?I i t"
    from I have l: "length (heap t mtx) = nat (dim_i * dim_j)" by simp
    from assms(1) have dj: "0 < dim_j" by simp
    have sq: "(i + 1) * dim_i \<le> dim_i * dim_i"
      using i by (intro mult_right_mono) auto
    have "(i + 1) * dim_j \<le> (i + 1) * dim_i"
      using i assms(2) by (intro mult_left_mono) auto
    with sq int have row: "(i + 1) * dim_j \<le> INT_MAX + 1" by linarith
    from sq int assms(2) have wr: "i * dim_i + dim_j \<le> INT_MAX + 1"
      by (simp add: algebra_simps)
    from sq int i have wi: "0 \<le> i * dim_i" "i * dim_i \<le> INT_MAX"
      by (simp_all add: algebra_simps)
    from assms(2) dims_int(1) [OF _ _ int] dj have mj: "dim_j \<le> INT_MAX" by simp
    show "(\<exists>t'. ?inner i t = Inr ((), t') \<and> ?I (i + 1) t') \<or> (\<exists>e. ?inner i t = Inl e \<and> ?E e)"
    proof (cases "i = dim_i - 1")
      case False
      with i have "i + 1 \<le> dim_i - 1" by simp
      with modify_inner_or_fail [OF i dj mj row wr l, of A new_stddev new_mean] show ?thesis
        by blast
    next
      case True
      have "dim_i * dim_j \<le> i * dim_i"
      proof -
        have "dim_j * dim_i \<le> i * dim_i" using True assms by (intro mult_right_mono) auto
        then show ?thesis by (simp add: mult.commute)
      qed
      moreover from idx_bound [OF i, of 0 dim_j] dj
      have "0 \<le> i * dim_j" "i * dim_j < dim_i * dim_j" by simp_all
      moreover from idx_int(2) [OF i _ dj row] dj
      have "i * dim_j \<le> INT_MAX" by simp
      ultimately have "bind (int_result (i * dim_j)) (\<lambda>p.
            bind (int_result (p + 0)) (\<lambda>k.
            bind (load mtx k) (\<lambda>x.
            bind (int_result (i * dim_i)) (\<lambda>p'.
            bind (int_result (p' + 0)) (\<lambda>k'.
            store mtx k' (d_add A (d_mul A x new_stddev) new_mean)))))) t =
          Inl (Out_of_bounds mtx (i * dim_i))"
        using l wi by (simp add: bind_def load_def store_def in_bounds_def int_result_nonneg)
      with dj have "?inner i t = Inl (Out_of_bounds mtx (i * dim_i))"
        by (intro for_loop_fail) auto
      with \<open>dim_i * dim_j \<le> i * dim_i\<close> show ?thesis by blast
    qed
  qed
  then show ?thesis by (auto simp: modify_mean_stddev_def)
qed

section \<open>What a run writes\<close>

lemma writes_only_refl: "writes_only out s s"
  by (simp add: writes_only_def)

lemma writes_only_trans:
  assumes "writes_only out s t" and "writes_only out t u"
  shows "writes_only out s u"
proof -
  from assms(1) obtain tr where 1: "trace t = trace s @ tr" "\<forall>q i. Store q i \<in> set tr \<longrightarrow> q = out"
    by (auto simp: writes_only_def)
  from assms(2) obtain tr' where 2: "trace u = trace t @ tr'" "\<forall>q i. Store q i \<in> set tr' \<longrightarrow> q = out"
    by (auto simp: writes_only_def)
  from 1 2 have "trace u = trace s @ (tr @ tr') \<and> (\<forall>q i. Store q i \<in> set (tr @ tr') \<longrightarrow> q = out)"
    by auto
  then have "\<exists>tr. trace u = trace s @ tr \<and> (\<forall>q i. Store q i \<in> set tr \<longrightarrow> q = out)"
    by blast
  with assms show ?thesis by (simp add: writes_only_def)
qed

lemma load_writes_only: "load p i s = Inr (x, t) \<Longrightarrow> writes_only out s t"
  by (auto simp: load_def writes_only_def split: if_splits)

lemma store_writes_only: "store out i v s = Inr (x, t) \<Longrightarrow> writes_only out s t"
  by (auto simp: store_def writes_only_def split: if_splits)

lemma int_result_writes_only: "int_result v s = Inr (x, t) \<Longrightarrow> writes_only out s t"
  by (auto simp: int_result_def writes_only_def split: if_splits)

lemma bind_InrE:
  assumes "bind m f s = Inr (y, u)"
  obtains x t where "m s = Inr (x, t)" and "f x t = Inr (y, u)"
  using assms by (auto simp: bind_def split: sum.splits)

lemma for_loop_writes_only:
  assumes "\<And>k t t'. body k t = Inr ((), t') \<Longrightarrow> writes_only out t t'"
    and "for_loop lo hi body s = Inr (x, s')"
  shows "writes_only out s s'"
  using assms
proof (induction lo hi body s rule: for_loop.induct)
  case (1 i hi body s)
  show ?case
  proof (cases "i < hi")
    case False
    with "1.prems"(2) have "s' = s" by (simp add: for_loop_done)
    then show ?thesis by (simp add: writes_only_refl)
  next
    case True
    with "1.prems"(2) obtain t where b: "body i s = Inr ((), t)"
      and k: "int_result (i + 1) t = Inr (i + 1, t)"
      and r: "for_loop (i + 1) hi body t = Inr (x, s')"
      by (subst (asm) for_loop.simps) (auto simp: int_result_def split: sum.splits if_splits)
    from "1.IH" [OF True b refl k refl "1.prems"(1) r] have "writes_only out t s'" .
    with "1.prems"(1) [OF b] show ?thesis by (rule writes_only_trans)
  qed
qed

lemma bind_writes_only:
  assumes "bind m f s = Inr (y, u)"
    and "\<And>x t. m s = Inr (x, t) \<Longrightarrow> writes_only out s t"
    and "\<And>x t. f x t = Inr (y, u) \<Longrightarrow> writes_only out t u"
  shows "writes_only out s u"
proof -
  from assms(1) obtain x t where "m s = Inr (x, t)" and "f x t = Inr (y, u)"
    by (rule bind_InrE)
  then show ?thesis using assms(2,3) by (blast intro: writes_only_trans)
qed

lemma stat_mean_writes_only:
  assumes "stat_mean A a mean dim_i dim_j s = Inr ((), s')"
  shows "writes_only mean s s'"
proof -
  from assms show ?thesis
    unfolding stat_mean_def Let_def
    by (elim bind_writes_only for_loop_writes_only [rotated] load_writes_only store_writes_only
        int_result_writes_only)
qed

lemma stat_std_writes_only:
  assumes "stat_std A a mean std dim_i dim_j s = Inr ((), s')"
  shows "writes_only std s s'"
proof -
  from assms show ?thesis
    unfolding stat_std_def Let_def
    by (elim bind_writes_only for_loop_writes_only [rotated] load_writes_only store_writes_only
        int_result_writes_only)
qed

lemma remove_mean_col_writes_only:
  assumes "remove_mean_col A a mean b dim_i dim_j s = Inr ((), s')"
  shows "writes_only b s s'"
proof -
  from assms show ?thesis
    unfolding remove_mean_col_def
    by (elim bind_writes_only for_loop_writes_only [rotated] load_writes_only store_writes_only
        int_result_writes_only)
qed

section \<open>Running the model on concrete inputs\<close>

lemmas exec_simps = bind_def load_def store_def put_def in_bounds_def for_loop.simps
  int_result_def INT_MAX_def INT_MIN_def

text \<open>
  The two calls on a matrix with 3 rows and 1 column whose elements are all \<open>c\<close>, in
  any arithmetic.
\<close>

lemma mean_then_std_3_by_1:
  "buffer_after (mean_then_std A 0 1 2 3 1
     \<lparr>heap = (\<lambda>p. [])(0 := [c, c, c], 1 := [m0], 2 := [s0]), trace = [], stdout = []\<rparr>) 2 =
   (let z = d_of_int A 0;
        m = d_div A (d_add A (d_add A (d_add A z c) c) c) (d_of_int A 3);
        q = d_mul A (d_sub A c m) (d_sub A c m)
    in Inr [d_sqrt A (d_div A (d_add A (d_add A (d_add A z q) q) q) (d_of_int A 2))])"
  by (simp add: mean_then_std_def stat_mean_def stat_std_def exec_simps buffer_after_def Let_def)

text \<open>The operations of that run in binary64 arithmetic, for \<open>c\<close> the double nearest to 0.1.\<close>

lemma tenths_arith:
  "b64_round (1 / 10) = Some (3602879701896397 / 36028797018963968)"
  "d_of_int b64_arith 0 = Some 0"
  "d_of_int b64_arith 3 = Some 3"
  "d_of_int b64_arith 2 = Some 2"
  "d_add b64_arith (Some 0) (Some (3602879701896397 / 36028797018963968)) = Some (3602879701896397 / 36028797018963968)"
  "d_add b64_arith (Some (3602879701896397 / 36028797018963968)) (Some (3602879701896397 / 36028797018963968)) = Some (3602879701896397 / 18014398509481984)"
  "d_add b64_arith (Some (3602879701896397 / 18014398509481984)) (Some (3602879701896397 / 36028797018963968)) = Some (1351079888211149 / 4503599627370496)"
  "d_div b64_arith (Some (1351079888211149 / 4503599627370496)) (Some 3) = Some (7205759403792795 / 72057594037927936)"
  "d_sub b64_arith (Some (3602879701896397 / 36028797018963968)) (Some (7205759403792795 / 72057594037927936)) = Some (- (1 / 72057594037927936))"
  "d_mul b64_arith (Some (- (1 / 72057594037927936))) (Some (- (1 / 72057594037927936))) = Some (1 / 5192296858534827628530496329220096)"
  "d_add b64_arith (Some 0) (Some (1 / 5192296858534827628530496329220096)) = Some (1 / 5192296858534827628530496329220096)"
  "d_add b64_arith (Some (1 / 5192296858534827628530496329220096)) (Some (1 / 5192296858534827628530496329220096)) = Some (1 / 2596148429267413814265248164610048)"
  "d_add b64_arith (Some (1 / 2596148429267413814265248164610048)) (Some (1 / 5192296858534827628530496329220096)) = Some (3 / 5192296858534827628530496329220096)"
  "d_div b64_arith (Some (3 / 5192296858534827628530496329220096)) (Some 2) = Some (3 / 10384593717069655257060992658440192)"
  "d_sqrt b64_arith (Some (3 / 10384593717069655257060992658440192)) = Some (2757880273211543 / 162259276829213363391578010288128)"
  by code_simp+

lemma halves_arith:
  "d_of_int b64_arith 0 = Some 0"
  "d_div b64_arith (d_sum b64_arith (replicate (nat 2) (Some (1 / 2)))) (d_of_int b64_arith 2)
     = Some (1 / 2)"
  "d_sub b64_arith (Some (1 / 2)) (Some (1 / 2)) = Some 0"
  "d_mul b64_arith (Some 0) (Some 0) = Some 0"
  "d_add b64_arith (Some 0) (Some 0) = Some 0"
  "d_div b64_arith (Some 0) (d_of_int b64_arith (2 - 1)) = Some 0"
  "d_sqrt b64_arith (Some 0) = Some 0"
  by code_simp+

section \<open>The rounding error of binary64\<close>

lemma ipow2_eq: "0 \<le> k \<Longrightarrow> ipow2 k = 2 ^ nat k"
proof (induction k rule: ipow2.induct)
  case (1 k)
  show ?case
  proof (cases "k \<le> 0")
    case True
    with "1.prems" have "k = 0" by simp
    then show ?thesis by (simp add: ipow2.simps)
  next
    case False
    then have "ipow2 k = 2 * ipow2 (k - 1)" by (subst ipow2.simps) simp
    also have "ipow2 (k - 1) = 2 ^ nat (k - 1)" using False by (intro "1.IH") auto
    also have "2 * (2::int) ^ nat (k - 1) = 2 ^ Suc (nat (k - 1))" by simp
    also have "Suc (nat (k - 1)) = nat k" using False by simp
    finally show ?thesis .
  qed
qed

lemma pow2_eq: "pow2 e = 2 powi e"
  by (simp add: pow2_def ipow2_eq power_int_def field_simps)

lemma pow2_pos: "0 < pow2 e"
  by (simp add: pow2_eq)

lemma pow2_add: "pow2 (a + b) = pow2 a * pow2 b"
  by (simp add: pow2_eq power_int_add)

lemma pow2_mono: "a \<le> b \<Longrightarrow> pow2 a \<le> pow2 b"
  by (simp add: pow2_eq power_int_increasing)

lemma bit_length_bounds:
  "0 < n \<Longrightarrow> 0 < bit_length n \<and> 2 ^ nat (bit_length n - 1) \<le> n \<and> n < 2 ^ nat (bit_length n)"
proof (induction n rule: bit_length.induct)
  case (1 n)
  have eq: "bit_length n = 1 + bit_length (n div 2)"
    using "1.prems" by (subst bit_length.simps) simp
  show ?case
  proof (cases "n div 2 = 0")
    case True
    then have "n = 1" using "1.prems" by presburger
    then show ?thesis by (simp add: eq bit_length.simps)
  next
    case False
    with "1.prems" have pos: "0 < n div 2" by presburger
    from "1.IH" [OF _ pos] "1.prems" have ih: "0 < bit_length (n div 2)"
      "2 ^ nat (bit_length (n div 2) - 1) \<le> n div 2" "n div 2 < 2 ^ nat (bit_length (n div 2))"
      by auto
    let ?b = "bit_length (n div 2)"
    have s: "nat ?b = Suc (nat (?b - 1))" "nat (1 + ?b) = Suc (nat ?b)"
      using ih(1) by auto
    have "(2::int) ^ nat ?b = 2 * 2 ^ nat (?b - 1)" by (subst s(1)) simp
    also have "\<dots> \<le> 2 * (n div 2)" using ih(2) by simp
    also have "\<dots> \<le> n" by presburger
    finally have lo: "2 ^ nat ?b \<le> n" .
    have "n < 2 * (n div 2) + 2" by presburger
    also have "\<dots> \<le> 2 * 2 ^ nat ?b" using ih(3) by simp
    also have "\<dots> = 2 ^ nat (1 + ?b)" by (subst s(2)) simp
    finally have hi: "n < 2 ^ nat (1 + ?b)" .
    from lo hi ih(1) show ?thesis by (simp add: eq)
  qed
qed


lemma bit_length_rat:
  assumes "0 < n"
  shows "pow2 (bit_length n - 1) \<le> of_int n" and "(of_int n :: rat) < pow2 (bit_length n)"
proof -
  from bit_length_bounds [OF assms]
  have b: "0 < bit_length n" "2 ^ nat (bit_length n - 1) \<le> n" "n < 2 ^ nat (bit_length n)"
    by auto
  have "pow2 (bit_length n - 1) = of_int (2 ^ nat (bit_length n - 1))"
    using b(1) by (simp add: pow2_eq power_int_def)
  also have "\<dots> \<le> of_int n" using b(2) by (simp only: of_int_le_iff)
  finally show "pow2 (bit_length n - 1) \<le> of_int n" .
  have "(of_int n :: rat) < of_int (2 ^ nat (bit_length n))"
    using b(3) by (simp only: of_int_less_iff)
  also have "\<dots> = pow2 (bit_length n)"
    using b(1) by (simp add: pow2_eq power_int_def)
  finally show "(of_int n :: rat) < pow2 (bit_length n)" .
qed

lemma floor_log2_bounds:
  assumes "0 < q"
  shows "pow2 (floor_log2 q) \<le> q" and "q < pow2 (floor_log2 q + 1)"
proof -
  obtain n d where nd: "quotient_of q = (n, d)" by (cases "quotient_of q")
  then have d: "0 < d" and q: "q = of_int n / of_int d"
    by (simp_all add: quotient_of_denom_pos quotient_of_div)
  from assms q d have n: "0 < n" by (simp add: zero_less_divide_iff)
  let ?k = "bit_length n - bit_length d"
  note bn = bit_length_rat [OF n] and bd = bit_length_rat [OF d]
  have dpos: "(0::rat) < of_int d" using d by simp
  have up: "q < pow2 (?k + 1)"
  proof -
    have "of_int n < pow2 (?k + 1) * pow2 (bit_length d - 1)"
      using bn(2) by (simp add: pow2_add [symmetric])
    also have "\<dots> \<le> pow2 (?k + 1) * of_int d"
      using bd(1) pow2_pos [of "?k + 1"] by (intro mult_left_mono) auto
    finally show ?thesis using dpos by (simp add: q pos_divide_less_eq)
  qed
  have lo: "pow2 (?k - 1) \<le> q"
  proof -
    have "pow2 (?k - 1) * of_int d \<le> pow2 (?k - 1) * pow2 (bit_length d)"
      using bd(2) pow2_pos [of "?k - 1"] by (intro mult_left_mono) auto
    also have "\<dots> = pow2 (bit_length n - 1)" by (simp add: pow2_add [symmetric])
    also have "\<dots> \<le> of_int n" by (rule bn(1))
    finally show ?thesis using dpos by (simp add: q pos_le_divide_eq)
  qed
  have fl: "floor_log2 q = (if pow2 ?k \<le> q then ?k else ?k - 1)"
    by (simp add: floor_log2_def nd)
  show "pow2 (floor_log2 q) \<le> q" using lo by (simp add: fl)
  show "q < pow2 (floor_log2 q + 1)" using up by (auto simp: fl)
qed

lemma round_even_close: "\<bar>of_int (round_even x) - x\<bar> \<le> 1 / 2"
proof -
  have "of_int \<lfloor>x\<rfloor> \<le> x" "x < of_int \<lfloor>x\<rfloor> + 1" by linarith+
  then show ?thesis
    unfolding round_even_def Let_def by (auto simp: abs_if; linarith)
qed

lemma b64_round_error:
  assumes "b64_round q = Some r"
  shows "\<bar>r - q\<bar> \<le> \<bar>q\<bar> / 2 ^ 53 + 1 / 2 ^ 1075"
proof (cases "q = 0")
  case True
  with assms show ?thesis by (simp add: b64_round_def)
next
  case False
  define e where "e = max (floor_log2 \<bar>q\<bar>) (- 1022)"
  define u where "u = pow2 (e - 52)"
  define m where "m = round_even (\<bar>q\<bar> / u)"
  from assms False have r: "r = sgn q * (of_int m * u)"
    by (auto simp: b64_round_def Let_def e_def u_def m_def split: if_splits)
  have u: "0 < u" by (simp add: u_def pow2_pos)
  have "\<bar>r - q\<bar> = \<bar>of_int m * u - \<bar>q\<bar>\<bar>"
  proof -
    have "sgn q * \<bar>q\<bar> = q" by (rule mult_sgn_abs)
    then have "r - q = sgn q * (of_int m * u - \<bar>q\<bar>)"
      by (simp add: r right_diff_distrib)
    then show ?thesis using False by (simp add: abs_mult abs_sgn_eq)
  qed
  also have "\<dots> = \<bar>of_int m - \<bar>q\<bar> / u\<bar> * u"
  proof -
    have "of_int m * u - \<bar>q\<bar> = (of_int m - \<bar>q\<bar> / u) * u"
      using u by (simp add: left_diff_distrib)
    then show ?thesis using u by (simp add: abs_mult)
  qed
  also have "\<dots> \<le> 1 / 2 * u"
    using u round_even_close [of "\<bar>q\<bar> / u"] by (intro mult_right_mono) (auto simp: m_def)
  also have "1 / 2 * u = pow2 (e - 53)"
    using pow2_add [of "e - 52" "- 1"] by (simp add: u_def pow2_eq)
  also have "\<dots> \<le> \<bar>q\<bar> / 2 ^ 53 + 1 / 2 ^ 1075"
  proof (cases "- 1022 \<le> floor_log2 \<bar>q\<bar>")
    case True
    then have "e = floor_log2 \<bar>q\<bar>" by (simp add: e_def)
    moreover have "pow2 (floor_log2 \<bar>q\<bar>) \<le> \<bar>q\<bar>"
      using False by (intro floor_log2_bounds) auto
    moreover have "pow2 (e - 53) = pow2 e / 2 ^ 53"
      using pow2_add [of e "- 53"] by (simp add: pow2_eq power_int_minus field_simps)
    ultimately have "pow2 (e - 53) \<le> \<bar>q\<bar> / 2 ^ 53"
      by (simp add: divide_right_mono)
    then show ?thesis by simp
  next
    case False
    then have "e = - 1022" by (simp add: e_def)
    then have "pow2 (e - 53) = 1 / 2 ^ 1075"
      by (simp add: pow2_eq power_int_minus field_simps)
    then show ?thesis by simp
  qed
  finally show ?thesis .
qed

text \<open>Subtracting and adding back the same double, both results finite.\<close>

lemma b64_sub_add_close:
  assumes "b64_round (x - m) = Some d" and "b64_round (d + m) = Some y"
  shows "\<bar>y - x\<bar> \<le> (\<bar>x\<bar> + \<bar>m\<bar>) / 2 ^ 51 + 1 / 2 ^ 1073"
proof -
  define h :: rat where "h = 1 / 2 ^ 1075"
  define S where "S = \<bar>x\<bar> + \<bar>m\<bar>"
  have h: "0 \<le> h" and S: "0 \<le> S" "\<bar>x\<bar> \<le> S" "\<bar>x - m\<bar> \<le> S"
    by (auto simp: h_def S_def)
  from b64_round_error [OF assms(1)] have "\<bar>d - (x - m)\<bar> \<le> \<bar>x - m\<bar> / 2 ^ 53 + h"
    by (simp add: h_def)
  also have "\<dots> \<le> S / 2 ^ 53 + h" using S(3) by (simp add: divide_right_mono)
  finally have e1: "\<bar>d - (x - m)\<bar> \<le> S / 2 ^ 53 + h" .
  have "\<bar>d + m\<bar> \<le> \<bar>x\<bar> + \<bar>d - (x - m)\<bar>" by linarith
  with e1 S(2) have dm: "\<bar>d + m\<bar> \<le> S + (S / 2 ^ 53 + h)" by linarith
  from b64_round_error [OF assms(2)] have "\<bar>y - (d + m)\<bar> \<le> \<bar>d + m\<bar> / 2 ^ 53 + h"
    by (simp add: h_def)
  also have "\<dots> \<le> (S + (S / 2 ^ 53 + h)) / 2 ^ 53 + h"
    using dm by (simp add: divide_right_mono)
  finally have e2: "\<bar>y - (d + m)\<bar> \<le> (S + (S / 2 ^ 53 + h)) / 2 ^ 53 + h" .
  have "\<bar>y - x\<bar> \<le> \<bar>y - (d + m)\<bar> + \<bar>d - (x - m)\<bar>" by linarith
  also have "\<dots> \<le> ((S + (S / 2 ^ 53 + h)) / 2 ^ 53 + h) + (S / 2 ^ 53 + h)"
    using e1 e2 by linarith
  also have "\<dots> = S * (2 / 2 ^ 53 + 1 / 2 ^ 106) + h * (2 + 1 / 2 ^ 53)"
    by (simp add: field_simps)
  also have "\<dots> \<le> S * (1 / 2 ^ 51) + h * 4"
    using S(1) h by (intro add_mono mult_left_mono) simp_all
  also have "\<dots> = S / 2 ^ 51 + 1 / 2 ^ 1073" by (simp add: h_def)
  finally show ?thesis by (simp add: S_def)
qed

lemma pow2_less_cancel: "pow2 a < pow2 b \<Longrightarrow> a < b"
  using pow2_mono [of b a] by (cases "a < b") auto

lemma pow2_nat: "0 \<le> k \<Longrightarrow> pow2 k = of_int (2 ^ nat k)"
  by (simp add: pow2_eq power_int_def)

lemma round_even_le: "x \<le> of_int z \<Longrightarrow> round_even x \<le> z"
proof -
  assume a: "x \<le> of_int z"
  have f: "of_int \<lfloor>x\<rfloor> \<le> x" "x < of_int \<lfloor>x\<rfloor> + 1" by linarith+
  from a have fz: "\<lfloor>x\<rfloor> \<le> z" by (simp add: floor_le_iff)
  show ?thesis
  proof (cases "\<lfloor>x\<rfloor> = z")
    case True
    with a f have "x - of_int \<lfloor>x\<rfloor> = 0" by simp
    then show ?thesis using True by (simp add: round_even_def Let_def)
  next
    case False
    with fz have "\<lfloor>x\<rfloor> + 1 \<le> z" by simp
    then show ?thesis using fz by (simp add: round_even_def Let_def)
  qed
qed

lemma round_even_nonneg: "0 \<le> x \<Longrightarrow> 0 \<le> round_even x"
proof -
  assume "0 \<le> x"
  then have "0 \<le> \<lfloor>x\<rfloor>" by simp
  then show ?thesis by (simp add: round_even_def Let_def)
qed

text \<open>
  Rounding does not pass a double: a number of magnitude at most \<open>N * 2^E\<close>, with
  \<open>N < 2^53\<close> and \<open>N * 2^E\<close> in the range of the finite doubles, is rounded to a
  finite double of magnitude at most \<open>N * 2^E\<close>.
\<close>

lemma b64_round_bounded:
  assumes q: "\<bar>q\<bar> \<le> of_int N * pow2 E"
    and N: "N < 2 ^ 53" and E: "- 1074 \<le> E"
    and fin: "of_int N * pow2 E < pow2 1024"
  shows "\<exists>r. b64_round q = Some r \<and> \<bar>r\<bar> \<le> of_int N * pow2 E"
proof (cases "q = 0")
  case True
  with q show ?thesis by (simp add: b64_round_def)
next
  case False
  define B where "B = of_int N * pow2 E"
  define e where "e = max (floor_log2 \<bar>q\<bar>) (- 1022)"
  define u where "u = pow2 (e - 52)"
  define m where "m = round_even (\<bar>q\<bar> / u)"
  have u: "0 < u" by (simp add: u_def pow2_pos)
  from False have qpos: "0 < \<bar>q\<bar>" by simp
  note fl = floor_log2_bounds [OF qpos]
  have eE: "e \<le> E + 52"
  proof (cases "- 1022 \<le> floor_log2 \<bar>q\<bar>")
    case True
    then have ee: "e = floor_log2 \<bar>q\<bar>" by (simp add: e_def)
    have "pow2 e \<le> \<bar>q\<bar>" using fl(1) by (simp add: ee)
    also have "\<dots> \<le> of_int N * pow2 E" by fact
    also have "\<dots> < 2 ^ 53 * pow2 E"
    proof -
      from N have "(of_int N :: rat) < of_int (2 ^ 53)" by (simp only: of_int_less_iff)
      then show ?thesis using pow2_pos [of E] by simp
    qed
    also have "\<dots> = pow2 (E + 53)"
      using pow2_add [of E 53] by (simp add: pow2_nat)
    finally have "e < E + 53" by (rule pow2_less_cancel)
    then show ?thesis by simp
  next
    case False
    then have "e = - 1022" by (simp add: e_def)
    with E show ?thesis by simp
  qed
  define k where "k = E - e + 52"
  from eE have k: "0 \<le> k" by (simp add: k_def)
  define Z where "Z = N * 2 ^ nat k"
  have "pow2 E = pow2 (k + (e - 52))" by (simp add: k_def)
  also have "\<dots> = of_int (2 ^ nat k) * u"
    by (simp only: pow2_add pow2_nat [OF k] u_def)
  finally have B: "B = of_int Z * u"
    by (simp add: B_def Z_def)
  have "\<bar>q\<bar> / u \<le> of_int Z"
    using q u by (simp add: B_def [symmetric] B pos_divide_le_eq)
  then have mZ: "m \<le> Z" unfolding m_def by (rule round_even_le)
  have m0: "0 \<le> m" unfolding m_def using u by (intro round_even_nonneg) simp
  have mu: "of_int m * u \<le> B"
  proof -
    from mZ have "(of_int m :: rat) \<le> of_int Z" by (simp only: of_int_le_iff)
    then show ?thesis using u by (simp add: B mult_right_mono)
  qed
  have ok: "\<not> (1023 < e \<or> (e = 1023 \<and> m = 9007199254740992))"
  proof
    assume "1023 < e \<or> (e = 1023 \<and> m = 9007199254740992)"
    then show False
    proof
      assume big: "1023 < e"
      then have ee: "e = floor_log2 \<bar>q\<bar>" by (simp add: e_def max_def split: if_splits)
      have "pow2 e \<le> \<bar>q\<bar>" using fl(1) by (simp add: ee)
      also have "\<dots> \<le> B" using q by (simp add: B_def)
      also have "\<dots> < pow2 1024" using fin by (simp add: B_def)
      finally have "e < 1024" by (rule pow2_less_cancel)
      with big show False by simp
    next
      assume "e = 1023 \<and> m = 9007199254740992"
      then have "of_int m * u = of_int (2 ^ 53) * pow2 971" by (simp add: u_def)
      also have "\<dots> = pow2 (53 + 971)" by (simp only: pow2_add) (simp add: pow2_nat)
      finally have "of_int m * u = pow2 1024" by simp
      with mu fin show False by (simp add: B_def)
    qed
  qed
  have "b64_round q = Some (sgn q * (of_int m * u))"
    using False ok by (simp add: b64_round_def Let_def e_def [symmetric] u_def [symmetric]
        m_def [symmetric])
  moreover have "\<bar>sgn q * (of_int m * u)\<bar> = of_int m * u"
    using False m0 u by (simp add: abs_mult abs_sgn_eq)
  ultimately show ?thesis using mu by (simp add: B_def)
qed

lemma b64_round_zero: "b64_round 0 = Some 0"
  by (simp add: b64_round_def)

lemma b64_ops:
  "d_of_int b64_arith i = b64_round (of_int i)"
  "d_add b64_arith (Some p) (Some q) = b64_round (p + q)"
  "d_sub b64_arith (Some p) (Some q) = b64_round (p - q)"
  "d_mul b64_arith (Some p) (Some q) = b64_round (p * q)"
  "q \<noteq> 0 \<Longrightarrow> d_div b64_arith (Some p) (Some q) = b64_round (p / q)"
  by (simp_all add: b64_arith_def)

lemma pow2_0: "pow2 0 = 1"
  by (simp add: pow2_eq)

lemma pow2_range:
  assumes "N \<le> 2 ^ 31" and "K \<le> 990"
  shows "of_int N * pow2 K < pow2 1024"
proof -
  from assms(1) have "(of_int N :: rat) \<le> of_int (2 ^ 31)" by (simp only: of_int_le_iff)
  then have "of_int N * pow2 K \<le> of_int (2 ^ 31) * pow2 K"
    using pow2_pos [of K] by (simp add: mult_right_mono)
  also have "\<dots> = pow2 (31 + K)"
    by (simp only: pow2_add) (simp add: pow2_nat)
  also have "\<dots> \<le> pow2 1021" using assms(2) by (intro pow2_mono) simp
  also have "\<dots> < pow2 1024" by (simp add: pow2_eq)
  finally show ?thesis .
qed

text \<open>An \<^verbatim>\<open>int\<close> from 1 on converts to a finite double that is not zero.\<close>

lemma b64_of_int_pos:
  assumes "1 \<le> n" and "n \<le> INT_MAX"
  shows "\<exists>v. d_of_int b64_arith n = Some v \<and> of_int n / 2 \<le> v"
proof -
  have "\<bar>of_int n :: rat\<bar> \<le> of_int n * pow2 0" using assms by (simp add: pow2_0)
  moreover have "n < 2 ^ 53" using assms by (simp add: INT_MAX_def)
  moreover have "(of_int n :: rat) * pow2 0 < pow2 1024"
    using assms by (intro pow2_range) (simp_all add: INT_MAX_def)
  ultimately obtain v where v: "b64_round (of_int n) = Some v"
    using b64_round_bounded [of "of_int n" n 0] by auto
  from b64_round_error [OF v] have "\<bar>v - of_int n\<bar> \<le> \<bar>of_int n\<bar> / 2 ^ 53 + 1 / 2 ^ 1075" .
  moreover from assms have "(1::rat) \<le> of_int n" by simp
  ultimately have "of_int n / 2 \<le> v" by (simp add: abs_le_iff) 
  with v show ?thesis by (simp add: b64_ops)
qed

text \<open>
  The sum of at most \<open>2^31\<close> doubles of magnitude at most \<open>2^K\<close>, \<open>K \<le> 990\<close>, is
  finite at every step.
\<close>

lemma b64_sum_bounded:
  assumes "\<forall>x\<in>set xs. \<exists>v. x = Some v \<and> \<bar>v\<bar> \<le> pow2 K"
    and "\<bar>s\<bar> \<le> of_int k * pow2 K" and "0 \<le> k" and "k + int (length xs) \<le> 2 ^ 31"
    and "0 \<le> K" and "K \<le> 990"
  shows "\<exists>r. foldl (d_add b64_arith) (Some s) xs = Some r \<and>
           \<bar>r\<bar> \<le> of_int (k + int (length xs)) * pow2 K"
  using assms(1-4)
proof (induction xs arbitrary: s k)
  case Nil
  then show ?case by simp
next
  case (Cons x xs)
  from Cons.prems(1) obtain v where v: "x = Some v" "\<bar>v\<bar> \<le> pow2 K" by auto
  have "\<bar>s + v\<bar> \<le> of_int (k + 1) * pow2 K"
    using Cons.prems(2) v(2) by (simp add: algebra_simps)
  moreover have "k + 1 < 2 ^ 53" using Cons.prems(4) by simp
  moreover have "- 1074 \<le> K" using assms(5) by simp
  moreover have "of_int (k + 1) * pow2 K < pow2 1024"
    using Cons.prems(4) assms(6) by (intro pow2_range) simp_all
  ultimately obtain r where r: "b64_round (s + v) = Some r" "\<bar>r\<bar> \<le> of_int (k + 1) * pow2 K"
    using b64_round_bounded [of "s + v" "k + 1" K] by blast
  have "\<forall>x\<in>set xs. \<exists>v. x = Some v \<and> \<bar>v\<bar> \<le> pow2 K" using Cons.prems(1) by simp
  moreover have "0 \<le> k + 1" "k + 1 + int (length xs) \<le> 2 ^ 31" using Cons.prems(3,4) by simp_all
  ultimately have "\<exists>r'. foldl (d_add b64_arith) (Some r) xs = Some r' \<and>
           \<bar>r'\<bar> \<le> of_int (k + 1 + int (length xs)) * pow2 K"
    using r(2) by (intro Cons.IH)
  moreover have "d_add b64_arith (Some s) x = Some r"
    by (simp add: b64_ops v r)
  ultimately show ?case by (simp add: algebra_simps)
qed

text \<open>The mean of such a column is finite, of magnitude at most \<open>2^(K+1)\<close>.\<close>

lemma b64_mean_bounded:
  assumes xs: "\<forall>x\<in>set xs. \<exists>v. x = Some v \<and> \<bar>v\<bar> \<le> pow2 K"
    and len: "int (length xs) = n" and n: "1 \<le> n" "n \<le> INT_MAX"
    and K: "0 \<le> K" "K \<le> 990"
  shows "\<exists>m. d_div b64_arith (d_sum b64_arith xs) (d_of_int b64_arith n) = Some m \<and>
           \<bar>m\<bar> \<le> pow2 (K + 1)"
proof -
  have z: "d_of_int b64_arith 0 = Some 0" by (simp add: b64_ops b64_round_zero)
  have "\<exists>r. foldl (d_add b64_arith) (Some 0) xs = Some r \<and>
           \<bar>r\<bar> \<le> of_int (0 + int (length xs)) * pow2 K"
    using xs n K len by (intro b64_sum_bounded) (simp_all add: INT_MAX_def)
  then obtain r where r: "d_sum b64_arith xs = Some r" "\<bar>r\<bar> \<le> of_int n * pow2 K"
    by (auto simp: d_sum_def z len)
  from b64_of_int_pos [OF n] obtain v where v: "d_of_int b64_arith n = Some v" "of_int n / 2 \<le> v"
    by blast
  from n v(2) have vpos: "0 < v" by simp
  have "\<bar>r / v\<bar> = \<bar>r\<bar> / v" using vpos by simp
  also have "\<dots> \<le> (of_int n * pow2 K) / v" using r(2) vpos by (simp add: divide_right_mono)
  also have "\<dots> \<le> (of_int n * pow2 K) / (of_int n / 2)"
    using v(2) n pow2_pos [of K] by (intro divide_left_mono) simp_all
  also have "\<dots> = 2 * pow2 K" using n by simp
  also have "\<dots> = of_int 1 * pow2 (K + 1)"
    using pow2_add [of K 1] by (simp add: pow2_nat)
  finally have "\<bar>r / v\<bar> \<le> of_int 1 * pow2 (K + 1)" .
  moreover have "(1::int) < 2 ^ 53" "- 1074 \<le> K + 1" using K by simp_all
  moreover have "of_int 1 * pow2 (K + 1) < pow2 1024"
  proof -
    have "pow2 (K + 1) \<le> pow2 991" using K by (intro pow2_mono) simp
    also have "\<dots> < pow2 1024" by (simp add: pow2_eq)
    finally show ?thesis by simp
  qed
  ultimately obtain m where "b64_round (r / v) = Some m" "\<bar>m\<bar> \<le> of_int 1 * pow2 (K + 1)"
    using b64_round_bounded [of "r / v" 1 "K + 1"] by blast
  moreover from vpos have "v \<noteq> 0" by simp
  ultimately show ?thesis by (simp add: r v b64_ops(5))
qed

text \<open>
  Subtracting such a mean from an element and adding it back gives a finite double, within
  the rounding error of the two operations.
\<close>

lemma b64_roundtrip_step:
  assumes "\<bar>x\<bar> \<le> pow2 K" and "\<bar>m\<bar> \<le> pow2 (K + 1)" and K: "0 \<le> K" "K \<le> 990"
  shows "\<exists>y. d_add b64_arith (d_sub b64_arith (Some x) (Some m)) (Some m) = Some y \<and>
           \<bar>y - x\<bar> \<le> (\<bar>x\<bar> + \<bar>m\<bar>) / 2 ^ 51 + 1 / 2 ^ 1073"
proof -
  have two: "pow2 (K + 1) = 2 * pow2 K"
    using pow2_add [of K 1] by (simp add: pow2_nat)
  have "\<bar>x - m\<bar> \<le> of_int 3 * pow2 K" using assms(1,2) by (simp add: two)
  moreover have "of_int 3 * pow2 K < pow2 1024" using K by (intro pow2_range) simp_all
  ultimately obtain d where d: "b64_round (x - m) = Some d" "\<bar>d\<bar> \<le> of_int 3 * pow2 K"
    using b64_round_bounded [of "x - m" 3 K] K by auto
  have "\<bar>d + m\<bar> \<le> of_int 5 * pow2 K" using d(2) assms(2) by (simp add: two)
  moreover have "of_int 5 * pow2 K < pow2 1024" using K by (intro pow2_range) simp_all
  ultimately obtain y where y: "b64_round (d + m) = Some y"
    using b64_round_bounded [of "d + m" 5 K] K by auto
  from b64_sub_add_close [OF d(1) y] d(1) y show ?thesis
    by (simp add: b64_ops)
qed

text \<open>The operations on zero that a constant column needs.\<close>

lemma b64_zero_laws:
  "d_of_int b64_arith 0 = Some 0"
  "d_sub b64_arith (Some c) (Some c) = Some 0"
  "d_mul b64_arith (Some 0) (Some 0) = Some 0"
  "d_add b64_arith (Some 0) (Some 0) = Some 0"
  "d_sqrt b64_arith (Some 0) = Some 0"
  by (simp_all add: b64_arith_def b64_round_zero)

lemma b64_zero_div:
  assumes "1 \<le> n" and "n \<le> INT_MAX"
  shows "d_div b64_arith (Some 0) (d_of_int b64_arith n) = Some 0"
proof -
  from b64_of_int_pos [OF assms] obtain v where "d_of_int b64_arith n = Some v" "of_int n / 2 \<le> v"
    by blast
  moreover from this assms have "v \<noteq> 0" by auto
  ultimately show ?thesis by (simp add: b64_ops b64_round_zero)
qed

lemma pow2_less: "a < b \<Longrightarrow> pow2 a < pow2 b"
  by (simp add: pow2_eq power_int_strict_increasing)

lemma floor_log2_pow2: "floor_log2 (pow2 k) = k"
proof -
  note b = floor_log2_bounds [OF pow2_pos [of k]]
  from b(1) have "floor_log2 (pow2 k) \<le> k"
    using pow2_less [of k "floor_log2 (pow2 k)"] by (cases "floor_log2 (pow2 k) \<le> k") auto
  moreover from b(2) have "k < floor_log2 (pow2 k) + 1" by (rule pow2_less_cancel)
  ultimately show ?thesis by simp
qed

lemma round_even_of_int: "round_even (of_int z) = z"
  by (simp add: round_even_def)

text \<open>A power of two in the range of the normal doubles is a double.\<close>

lemma b64_round_pow2:
  assumes "- 1022 \<le> k" and "k \<le> 1023"
  shows "b64_round (pow2 k) = Some (pow2 k)"
proof -
  have p: "0 < pow2 k" by (rule pow2_pos)
  have "pow2 k = pow2 (52 + (k - 52))" by simp
  also have "\<dots> = of_int (2 ^ 52) * pow2 (k - 52)"
    by (simp only: pow2_add) (simp add: pow2_nat)
  finally have s: "pow2 k = of_int (2 ^ 52) * pow2 (k - 52)" .
  then have "pow2 k / pow2 (k - 52) = of_int (2 ^ 52)"
    using pow2_pos [of "k - 52"] by (simp add: field_simps)
  then have m: "round_even (pow2 k / pow2 (k - 52)) = 2 ^ 52"
    by (simp only: round_even_of_int)
  from assms have e: "max k (- 1022) = k" by simp
  from p have ne: "pow2 k \<noteq> 0" and ab: "\<bar>pow2 k\<bar> = pow2 k" and sg: "sgn (pow2 k) = 1"
    by simp_all
  have "b64_round (pow2 k) =
      (let e = max (floor_log2 \<bar>pow2 k\<bar>) (- 1022);
           u = pow2 (e - 52);
           m = round_even (\<bar>pow2 k\<bar> / u)
       in if 1023 < e \<or> (e = 1023 \<and> m = 9007199254740992) then None
          else Some (sgn (pow2 k) * (of_int m * u)))"
    using ne by (simp add: b64_round_def)
  also have "\<dots> = Some (of_int (2 ^ 52) * pow2 (k - 52))"
    unfolding ab floor_log2_pow2 e Let_def m sg using assms by simp
  also have "\<dots> = Some (pow2 k)" by (simp only: s [symmetric])
  finally show ?thesis .
qed

text \<open>From \<open>2^1024\<close> on, nothing rounds to a finite double.\<close>

lemma b64_round_overflow:
  assumes "pow2 1024 \<le> \<bar>q\<bar>"
  shows "b64_round q = None"
proof -
  from assms pow2_pos [of 1024] have q: "0 < \<bar>q\<bar>" by linarith
  from floor_log2_bounds(2) [OF q] assms have "pow2 1024 < pow2 (floor_log2 \<bar>q\<bar> + 1)" by simp
  then have "1023 < floor_log2 \<bar>q\<bar>" using pow2_less_cancel by fastforce
  moreover from q have "q \<noteq> 0" by auto
  ultimately show ?thesis by (simp add: b64_round_def Let_def)
qed

lemma b64_not_finite:
  "d_mul b64_arith x None = None" "d_mul b64_arith None y = None" "d_sqrt b64_arith None = None"
  "d_add b64_arith x None = None" "d_add b64_arith None y = None"
  "d_sub b64_arith x None = None" "d_div b64_arith None y = None"
  by (simp_all add: b64_arith_def split: option.splits)

text \<open>The integer square root is the root rounded down.\<close>

lemma isqrt_correct:
  "0 \<le> n \<Longrightarrow> 0 \<le> isqrt n \<and> isqrt n * isqrt n \<le> n \<and> n < (isqrt n + 1) * (isqrt n + 1)"
proof (induction n rule: isqrt.induct)
  case (1 n)
  show ?case
  proof (cases "n < 2")
    case True
    then have "isqrt n = n" by (subst isqrt.simps) simp
    moreover from True "1.prems" have "n = 0 \<or> n = 1" by auto
    ultimately show ?thesis by auto
  next
    case False
    define r0 where "r0 = isqrt (n div 4)"
    define r where "r = 2 * r0"
    from False have "0 \<le> n div 4" by simp
    from "1.IH" [OF False this] have ih: "0 \<le> r0" "r0 * r0 \<le> n div 4"
      "n div 4 < (r0 + 1) * (r0 + 1)" by (simp_all add: r0_def)
    have eq: "isqrt n = (if (r + 1) * (r + 1) \<le> n then r + 1 else r)"
      using False by (subst isqrt.simps) (simp add: r_def r0_def Let_def)
    have "r * r = 4 * (r0 * r0)" by (simp add: r_def)
    also have "\<dots> \<le> 4 * (n div 4)" using ih(2) by simp
    also have "\<dots> \<le> n" by presburger
    finally have lo: "r * r \<le> n" .
    have "n div 4 + 1 \<le> (r0 + 1) * (r0 + 1)" using ih(3) by simp
    then have "4 * (n div 4) + 4 \<le> 4 * ((r0 + 1) * (r0 + 1))" by simp
    moreover have "n < 4 * (n div 4) + 4" by presburger
    moreover have "4 * ((r0 + 1) * (r0 + 1)) = (r + 2) * (r + 2)" by (simp add: r_def algebra_simps)
    ultimately have hi: "n < (r + 2) * (r + 2)" by linarith
    have r: "0 \<le> r" using ih(1) by (simp add: r_def)
    show ?thesis
    proof (cases "(r + 1) * (r + 1) \<le> n")
      case True
      with hi r show ?thesis by (simp add: eq algebra_simps)
    next
      case False
      with lo r show ?thesis by (simp add: eq)
    qed
  qed
qed

section \<open>Constant columns and the round trip\<close>

lemma column_const:
  assumes "\<forall>i. 0 \<le> i \<and> i < rows \<longrightarrow> m ! nat (i * dim_j + j) = c"
  shows "column m dim_j rows j = replicate (nat rows) c"
proof -
  have "map (\<lambda>i. m ! nat (i * dim_j + j)) [0..rows - 1] = map (\<lambda>i. c) [0..rows - 1]"
    using assms by (intro map_cong) auto
  then show ?thesis by (simp add: column_def map_replicate_const)
qed

lemma column_length: "0 \<le> rows \<Longrightarrow> int (length (column m dim_j rows j)) = rows"
  by (simp add: column_def)

lemma column_elements:
  assumes "\<And>i. 0 \<le> i \<Longrightarrow> i < rows \<Longrightarrow> P (m ! nat (i * dim_j + j))"
  shows "\<forall>x\<in>set (column m dim_j rows j). P x"
  using assms by (auto simp: column_def)

lemma d_sum_zeros:
  assumes "d_add A (d_of_int A 0) (d_of_int A 0) = d_of_int A 0"
  shows "d_sum A (replicate n (d_of_int A 0)) = d_of_int A 0"
  unfolding d_sum_def using assms by (induction n) simp_all

text \<open>
  A constant column whose computed mean is the constant, in an arithmetic in which
  \<open>c - c\<close>, \<open>0 * 0\<close>, \<open>0 + 0\<close>, \<open>0 / (dim_i - 1)\<close> and \<open>sqrt 0\<close> are 0.
\<close>

lemma constant_column_zero:
  assumes dims: "2 \<le> dim_i" "1 \<le> dim_j"
    and int: "dim_i \<le> INT_MAX" "dim_j \<le> INT_MAX" "dim_i * dim_j \<le> INT_MAX + 1"
    and lens: "length (heap s a) = nat (dim_i * dim_j)" "length (heap s mean) = nat dim_j"
      "length (heap s std) = nat dim_j"
    and dist: "distinct [a, mean, std]"
    and j: "0 \<le> j" "j < dim_j"
    and const: "\<forall>i. 0 \<le> i \<and> i < dim_i \<longrightarrow> heap s a ! nat (i * dim_j + j) = c"
    and mean_exact: "d_div A (d_sum A (replicate (nat dim_i) c)) (d_of_int A dim_i) = c"
    and sub: "d_sub A c c = d_of_int A 0"
    and mul: "d_mul A (d_of_int A 0) (d_of_int A 0) = d_of_int A 0"
    and add: "d_add A (d_of_int A 0) (d_of_int A 0) = d_of_int A 0"
    and div: "d_div A (d_of_int A 0) (d_of_int A (dim_i - 1)) = d_of_int A 0"
    and root: "d_sqrt A (d_of_int A 0) = d_of_int A 0"
  shows "\<exists>s'. mean_then_std A a mean std dim_i dim_j s = Inr ((), s') \<and>
           heap s' mean ! nat j = c \<and> heap s' std ! nat j = d_of_int A 0"
proof -
  from dist have ne: "mean \<noteq> a" "std \<noteq> a" "std \<noteq> mean" by auto
  from dims have d: "0 < dim_i" "0 < dim_j" by auto
  from lens have len: "nat (dim_i * dim_j) \<le> length (heap s a)"
    "nat dim_j \<le> length (heap s mean)" by auto
  from stat_mean_effect [OF d int len ne(1), of A]
  obtain s1 where r1: "stat_mean A a mean dim_i dim_j s = Inr ((), s1)"
    and f1: "finalised A (\<lambda>_ x. x) (\<lambda>v. d_div A v (d_of_int A dim_i)) a mean dim_i dim_j s dim_j s1"
    by blast
  from f1 have u1: "unchanged_except mean s s1" by (simp add: finalised_def)
  with ne have h1: "heap s1 a = heap s a" "heap s1 std = heap s std"
    "length (heap s1 mean) = length (heap s mean)"
    by (auto simp: unchanged_except_def)
  have col: "column (heap s a) dim_j dim_i j = replicate (nat dim_i) c"
    using const by (rule column_const)
  from f1 j have m: "heap s1 mean ! nat j = c"
    by (simp add: finalised_def col mean_exact)
  from h1 lens have len1: "nat (dim_i * dim_j) \<le> length (heap s1 a)"
    "nat dim_j \<le> length (heap s1 mean)" "nat dim_j \<le> length (heap s1 std)" by auto
  from stat_std_effect [OF d int len1 ne(2,3), of A]
  obtain s2 where r2: "stat_std A a mean std dim_i dim_j s1 = Inr ((), s2)"
    and f2: "finalised A (\<lambda>k. sq_dev A (heap s1 mean ! nat k))
             (\<lambda>v. d_sqrt A (d_div A v (d_of_int A (dim_i - 1)))) a std dim_i dim_j s1 dim_j s2"
    by blast
  from f2 ne have m2: "heap s2 mean = heap s1 mean"
    by (auto simp: finalised_def unchanged_except_def)
  have sq: "sq_dev A c c = d_of_int A 0"
    by (simp add: sq_dev_def sub mul)
  from f2 j have "heap s2 std ! nat j =
      d_sqrt A (d_div A
        (d_sum A (map (sq_dev A (heap s1 mean ! nat j)) (column (heap s1 a) dim_j dim_i j)))
        (d_of_int A (dim_i - 1)))"
    by (simp add: finalised_def)
  then have "heap s2 std ! nat j = d_of_int A 0"
    by (simp add: h1 col m sq d_sum_zeros [OF add] div root)
  moreover have "mean_then_std A a mean std dim_i dim_j s = Inr ((), s2)"
    using r1 r2 by (simp add: mean_then_std_def bind_def)
  ultimately show ?thesis using m m2 by auto
qed

text \<open>
  The round trip in any arithmetic: the means that \<open>stat_mean\<close> leaves, and what adding
  them back to the centred matrix gives, element by element.
\<close>

lemma mean_then_remove_effect:
  assumes dims: "1 \<le> dim_i" "1 \<le> dim_j"
    and int: "dim_i \<le> INT_MAX" "dim_j \<le> INT_MAX" "dim_i * dim_j \<le> INT_MAX + 1"
    and lens: "length (heap s a) = nat (dim_i * dim_j)" "length (heap s mean) = nat dim_j"
      "length (heap s b) = nat (dim_i * dim_j)"
    and dist: "distinct [a, mean, b]"
  shows "\<exists>s'. mean_then_remove A a mean b dim_i dim_j s = Inr ((), s') \<and>
           length (add_mean_col A (heap s' b) (heap s' mean) dim_i dim_j) = length (heap s a) \<and>
           (\<forall>j. 0 \<le> j \<and> j < dim_j \<longrightarrow>
              heap s' mean ! nat j =
                d_div A (d_sum A (column (heap s a) dim_j dim_i j)) (d_of_int A dim_i)) \<and>
           (\<forall>k. 0 \<le> k \<and> k < dim_i * dim_j \<longrightarrow>
              add_mean_col A (heap s' b) (heap s' mean) dim_i dim_j ! nat k =
                d_add A (d_sub A (heap s a ! nat k) (heap s' mean ! nat (k mod dim_j)))
                  (heap s' mean ! nat (k mod dim_j)))"
proof -
  from dist have ne: "mean \<noteq> a" "b \<noteq> a" "b \<noteq> mean" by auto
  from dims have d: "0 < dim_i" "0 < dim_j" by auto
  from lens have len: "nat (dim_i * dim_j) \<le> length (heap s a)"
    "nat dim_j \<le> length (heap s mean)" by auto
  from stat_mean_effect [OF d int len ne(1), of A]
  obtain s1 where r1: "stat_mean A a mean dim_i dim_j s = Inr ((), s1)"
    and f: "finalised A (\<lambda>_ x. x) (\<lambda>v. d_div A v (d_of_int A dim_i)) a mean dim_i dim_j s dim_j s1"
    by blast
  from f have u1: "unchanged_except mean s s1" by (simp add: finalised_def)
  with ne have h1: "heap s1 a = heap s a" "heap s1 b = heap s b"
    "length (heap s1 mean) = length (heap s mean)"
    by (auto simp: unchanged_except_def)
  from h1 lens have len1: "nat (dim_i * dim_j) \<le> length (heap s1 a)"
    "nat dim_j \<le> length (heap s1 mean)" "nat (dim_i * dim_j) \<le> length (heap s1 b)" by auto
  from centred_outer [OF d int len1 ne(2,3), of A]
  obtain s2 where r2: "remove_mean_col A a mean b dim_i dim_j s1 = Inr ((), s2)"
    and c: "centred A a mean b dim_j s1 (dim_i * dim_j) s2" by blast
  from c ne have h2: "heap s2 mean = heap s1 mean"
    by (auto simp: centred_def unchanged_except_def)
  from d have L: "0 \<le> dim_i * dim_j" by simp
  have len2: "length (add_mean_col A (heap s2 b) (heap s2 mean) dim_i dim_j) = length (heap s a)"
    using L lens(1) by (simp add: add_mean_col_def)
  have means: "\<forall>j. 0 \<le> j \<and> j < dim_j \<longrightarrow>
      heap s2 mean ! nat j =
        d_div A (d_sum A (column (heap s a) dim_j dim_i j)) (d_of_int A dim_i)"
    using f by (simp add: finalised_def h2)
  have "add_mean_col A (heap s2 b) (heap s2 mean) dim_i dim_j ! nat k =
          d_add A (d_sub A (heap s a ! nat k) (heap s2 mean ! nat (k mod dim_j)))
            (heap s2 mean ! nat (k mod dim_j))"
    if k: "0 \<le> k" "k < dim_i * dim_j" for k
  proof -
    from k have "[0..dim_i * dim_j - 1] ! nat k = k" by (simp add: nth_upto)
    with k have "add_mean_col A (heap s2 b) (heap s2 mean) dim_i dim_j ! nat k =
        d_add A (heap s2 b ! nat k) (heap s2 mean ! nat (k mod dim_j))"
      by (simp add: add_mean_col_def)
    moreover from c k have "heap s2 b ! nat k =
        d_sub A (heap s1 a ! nat k) (heap s1 mean ! nat (k mod dim_j))"
      by (simp add: centred_def)
    ultimately show ?thesis by (simp add: h1 h2)
  qed
  moreover have "mean_then_remove A a mean b dim_i dim_j s = Inr ((), s2)"
    using r1 r2 by (simp add: mean_then_remove_def bind_def)
  ultimately show ?thesis using len2 means by blast
qed

text \<open>
  The round trip on the matrix with the rows (x0) and (x1), in any arithmetic: the mean
  and the matrix after centring and adding the mean back.
\<close>

lemma mean_then_remove_2_by_1:
  "mean_then_remove A 0 1 3 2 1
     \<lparr>heap = (\<lambda>p. [])(0 := [x0, x1], 1 := [m0], 3 := [b0, b1]), trace = [], stdout = []\<rparr> =
   Inr ((), s') \<Longrightarrow>
   (let m = d_div A (d_add A (d_add A (d_of_int A 0) x0) x1) (d_of_int A 2)
    in heap s' 1 = [m] \<and>
       add_mean_col A (heap s' 3) (heap s' 1) 2 1 =
         [d_add A (d_sub A x0 m) m, d_add A (d_sub A x1 m) m])"
  by (auto simp: mean_then_remove_def stat_mean_def remove_mean_col_def exec_simps Let_def
      add_mean_col_def upto.simps)

lemma mean_then_remove_2_by_1_returns:
  "\<exists>s'. mean_then_remove A 0 1 3 2 1
     \<lparr>heap = (\<lambda>p. [])(0 := [x0, x1], 1 := [m0], 3 := [b0, b1]), trace = [], stdout = []\<rparr> =
   Inr ((), s')"
  by (simp add: mean_then_remove_def stat_mean_def remove_mean_col_def exec_simps)

text \<open>The operations of that run in binary64 arithmetic, for the doubles 0.1 and 1.9.\<close>

lemma decimals_arith:
  "b64_round (1 / 10) = Some (3602879701896397 / 36028797018963968)"
  "b64_round (19 / 10) = Some (4278419646001971 / 2251799813685248)"
  "d_of_int b64_arith 0 = Some 0"
  "d_of_int b64_arith 2 = Some 2"
  "d_add b64_arith (Some 0) (Some (3602879701896397 / 36028797018963968)) = Some (3602879701896397 / 36028797018963968)"
  "d_add b64_arith (Some (3602879701896397 / 36028797018963968)) (Some (4278419646001971 / 2251799813685248)) = Some 2"
  "d_div b64_arith (Some 2) (Some 2) = Some 1"
  "d_sub b64_arith (Some (3602879701896397 / 36028797018963968)) (Some 1) = Some (- (8106479329266893 / 9007199254740992))"
  "d_sub b64_arith (Some (4278419646001971 / 2251799813685248)) (Some 1) = Some (2026619832316723 / 2251799813685248)"
  "d_add b64_arith (Some (- (8106479329266893 / 9007199254740992))) (Some 1) = Some (900719925474099 / 9007199254740992)"
  "d_add b64_arith (Some (2026619832316723 / 2251799813685248)) (Some 1) = Some (4278419646001971 / 2251799813685248)"
  by code_simp+

text \<open>The same for the doubles \<open>2^1023\<close> and \<open>2^1023\<close>: their sum is not a finite double.\<close>

lemma large_arith:
  "d_add b64_arith (Some 0) (Some (2 ^ 1023)) = Some (2 ^ 1023)"
  "d_add b64_arith (Some (2 ^ 1023)) (Some (2 ^ 1023)) = None"
proof -
  have p: "pow2 1023 = 2 ^ 1023" "pow2 1024 = 2 ^ 1024" by (simp_all add: pow2_nat)
  from b64_round_pow2 [of 1023] show "d_add b64_arith (Some 0) (Some (2 ^ 1023)) = Some (2 ^ 1023)"
    by (simp add: b64_ops p)
  have "b64_round (2 ^ 1023 + 2 ^ 1023) = None"
    by (rule b64_round_overflow) (simp add: p)
  then show "d_add b64_arith (Some (2 ^ 1023)) (Some (2 ^ 1023)) = None"
    by (simp only: b64_ops)
qed

text \<open>The same for the doubles 1 and \<open>2 * 10^16\<close>: the element 1 comes back as 0.\<close>

lemma spread_arith:
  "d_of_int b64_arith 0 = Some 0"
  "d_of_int b64_arith 2 = Some 2"
  "d_add b64_arith (Some 0) (Some 1) = Some 1"
  "d_add b64_arith (Some 1) (Some 20000000000000000) = Some 20000000000000000"
  "d_div b64_arith (Some 20000000000000000) (Some 2) = Some 10000000000000000"
  "d_sub b64_arith (Some 1) (Some 10000000000000000) = Some (- 10000000000000000)"
  "d_sub b64_arith (Some 20000000000000000) (Some 10000000000000000) = Some 10000000000000000"
  "d_add b64_arith (Some (- 10000000000000000)) (Some 10000000000000000) = Some 0"
  "d_add b64_arith (Some 10000000000000000) (Some 10000000000000000) = Some 20000000000000000"
  by code_simp+
section \<open>Matrices that int cannot index\<close>

text \<open>
  Where row \<open>k\<close> of the matrix begins at the offset \<open>INT_MAX + 1\<close>, the rows before it
  are processed and the multiplication \<open>k * dim_j\<close> overflows: the run has no result.
\<close>

lemma stat_mean_overflow:
  fixes s :: "'d state"
  assumes k: "0 < k" "k < dim_i" and dims: "dim_i \<le> INT_MAX" "0 < dim_j" "dim_j \<le> INT_MAX"
    and ov: "k * dim_j = INT_MAX + 1"
    and len: "nat (dim_i * dim_j) \<le> length (heap s a)" "nat dim_j \<le> length (heap s mean)"
    and ne: "mean \<noteq> a"
  shows "stat_mean A a mean dim_i dim_j s = Inl (Int_overflow (k * dim_j))"
proof -
  let ?body = "\<lambda>i. bind (int_result (i * dim_j)) (\<lambda>n.
             for_loop 0 dim_j (\<lambda>j.
               bind (load mean j) (\<lambda>m.
               bind (int_result (j + n)) (\<lambda>k.
               bind (load a k) (\<lambda>x.
               store mean j (d_add A m x))))))"
  let ?I = "\<lambda>i (t::'d state). accumulated A (\<lambda>_ x. x) a mean dim_j s i 0 t \<and>
              loaded a s (i * dim_j) t \<and> i \<le> k"
  let ?E = "\<lambda>e. e = Int_overflow (k * dim_j)"
  from dims(2) have "0 \<le> dim_j" by simp
  from zero_loop [OF this dims(3) len(2), of A a]
  obtain t1 where r1: "for_loop 0 dim_j (\<lambda>j. store mean j (d_of_int A 0)) s = Inr ((), t1)"
    and z: "zeroed A mean s dim_j t1" and l1: "loaded a s 0 t1" by blast
  have "(\<exists>s'. for_loop 0 dim_i ?body t1 = Inr ((), s') \<and> ?I dim_i s') \<or>
        (\<exists>e. for_loop 0 dim_i ?body t1 = Inl e \<and> ?E e)"
  proof (rule for_loop_inv_or_fail [where I = ?I])
    show "0 \<le> dim_i" using k by simp
    show "dim_i \<le> INT_MAX" by fact
    show "?I 0 t1" using zeroed_accumulated [OF z] l1 k by simp
  next
    fix i and t :: "'d state"
    assume i: "0 \<le> i" "i < dim_i" and I: "?I i t"
    show "(\<exists>t'. ?body i t = Inr ((), t') \<and> ?I (i + 1) t') \<or> (\<exists>e. ?body i t = Inl e \<and> ?E e)"
    proof (cases "i = k")
      case True
      from ov have "int_result (k * dim_j) t = Inl (Int_overflow (k * dim_j))"
        by (intro int_result_overflow) simp
      then show ?thesis by (simp add: True bind_def)
    next
      case False
      with I have lt: "i + 1 \<le> k" by simp
      then have "(i + 1) * dim_j \<le> k * dim_j"
        using dims(2) by (intro mult_right_mono) auto
      with ov have row: "(i + 1) * dim_j \<le> INT_MAX + 1" by simp
      from idx_int(1,2) [OF i _ dims(2) row]
      have o: "int_result (i * dim_j) t = Inr (i * dim_j, t)"
        by (simp add: int_result_nonneg)
      from I have acc: "accumulated A (\<lambda>_ x. x) a mean dim_j s i 0 t"
        and ld: "loaded a s (i * dim_j) t" by simp_all
      from stat_mean_inner [OF i dims(2,3) row len ne acc ld] o lt
      show ?thesis by (simp add: bind_def)
    qed
  qed
  with k have "for_loop 0 dim_i ?body t1 = Inl (Int_overflow (k * dim_j))" by auto
  with r1 show ?thesis by (simp add: stat_mean_def bind_def)
qed

lemma stat_std_overflow:
  fixes s :: "'d state"
  assumes k: "0 < k" "k < dim_i" and dims: "dim_i \<le> INT_MAX" "0 < dim_j" "dim_j \<le> INT_MAX"
    and ov: "k * dim_j = INT_MAX + 1"
    and len: "nat (dim_i * dim_j) \<le> length (heap s a)" "nat dim_j \<le> length (heap s mean)"
      "nat dim_j \<le> length (heap s std)"
    and ne: "std \<noteq> a" "std \<noteq> mean"
  shows "stat_std A a mean std dim_i dim_j s = Inl (Int_overflow (k * dim_j))"
proof -
  let ?body = "\<lambda>i. bind (int_result (i * dim_j)) (\<lambda>n.
             for_loop 0 dim_j (\<lambda>j.
               bind (load std j) (\<lambda>acc.
               bind (int_result (j + n)) (\<lambda>k.
               bind (load a k) (\<lambda>x.
               bind (load mean j) (\<lambda>m.
               bind (int_result (j + n)) (\<lambda>k'.
               bind (load a k') (\<lambda>x'.
               bind (load mean j) (\<lambda>m'.
               store std j (d_add A acc (d_mul A (d_sub A x m) (d_sub A x' m'))))))))))))"
  let ?I = "\<lambda>i (t::'d state).
              accumulated A (\<lambda>k. sq_dev A (heap s mean ! nat k)) a std dim_j s i 0 t \<and> i \<le> k"
  let ?E = "\<lambda>e. e = Int_overflow (k * dim_j)"
  from dims(2) have "0 \<le> dim_j" by simp
  from zero_loop [OF this dims(3) len(3), of A a]
  obtain t1 where r1: "for_loop 0 dim_j (\<lambda>j. store std j (d_of_int A 0)) s = Inr ((), t1)"
    and z: "zeroed A std s dim_j t1" by blast
  have "(\<exists>s'. for_loop 0 dim_i ?body t1 = Inr ((), s') \<and> ?I dim_i s') \<or>
        (\<exists>e. for_loop 0 dim_i ?body t1 = Inl e \<and> ?E e)"
  proof (rule for_loop_inv_or_fail [where I = ?I])
    show "0 \<le> dim_i" using k by simp
    show "dim_i \<le> INT_MAX" by fact
    show "?I 0 t1" using zeroed_accumulated [OF z] k by simp
  next
    fix i and t :: "'d state"
    assume i: "0 \<le> i" "i < dim_i" and I: "?I i t"
    show "(\<exists>t'. ?body i t = Inr ((), t') \<and> ?I (i + 1) t') \<or> (\<exists>e. ?body i t = Inl e \<and> ?E e)"
    proof (cases "i = k")
      case True
      from ov have "int_result (k * dim_j) t = Inl (Int_overflow (k * dim_j))"
        by (intro int_result_overflow) simp
      then show ?thesis by (simp add: True bind_def)
    next
      case False
      with I have lt: "i + 1 \<le> k" by simp
      then have "(i + 1) * dim_j \<le> k * dim_j"
        using dims(2) by (intro mult_right_mono) auto
      with ov have row: "(i + 1) * dim_j \<le> INT_MAX + 1" by simp
      from idx_int(1,2) [OF i _ dims(2) row]
      have o: "int_result (i * dim_j) t = Inr (i * dim_j, t)"
        by (simp add: int_result_nonneg)
      from I have acc: "accumulated A (\<lambda>k. sq_dev A (heap s mean ! nat k)) a std dim_j s i 0 t"
        by simp
      from stat_std_inner [OF i dims(2,3) row len ne acc] o lt
      show ?thesis by (simp add: bind_def)
    qed
  qed
  with k have "for_loop 0 dim_i ?body t1 = Inl (Int_overflow (k * dim_j))" by auto
  with r1 show ?thesis by (simp add: stat_std_def bind_def)
qed

lemma remove_mean_col_overflow:
  fixes s :: "'d state"
  assumes k: "0 < k" "k < dim_i" and dims: "dim_i \<le> INT_MAX" "0 < dim_j" "dim_j \<le> INT_MAX"
    and ov: "k * dim_j = INT_MAX + 1"
    and len: "nat (dim_i * dim_j) \<le> length (heap s a)" "nat dim_j \<le> length (heap s mean)"
       "nat (dim_i * dim_j) \<le> length (heap s b)"
    and ne: "b \<noteq> a" "b \<noteq> mean"
  shows "remove_mean_col A a mean b dim_i dim_j s = Inl (Int_overflow (k * dim_j))"
proof -
  let ?step = "\<lambda>i j.
         bind (int_result (i * dim_j)) (\<lambda>p.
         bind (int_result (p + j)) (\<lambda>k.
         bind (load a k) (\<lambda>x.
         bind (load mean j) (\<lambda>m.
         bind (int_result (i * dim_j)) (\<lambda>p'.
         bind (int_result (p' + j)) (\<lambda>k'.
         store b k' (d_sub A x m)))))))"
  let ?body = "\<lambda>i. for_loop 0 dim_j (?step i)"
  let ?I = "\<lambda>i (t::'d state). centred A a mean b dim_j s (i * dim_j) t \<and> i \<le> k"
  let ?E = "\<lambda>e. e = Int_overflow (k * dim_j)"
  have "(\<exists>s'. for_loop 0 dim_i ?body s = Inr ((), s') \<and> ?I dim_i s') \<or>
        (\<exists>e. for_loop 0 dim_i ?body s = Inl e \<and> ?E e)"
  proof (rule for_loop_inv_or_fail [where I = ?I])
    show "0 \<le> dim_i" using k by simp
    show "dim_i \<le> INT_MAX" by fact
    show "?I 0 s" using k by (auto simp: centred_def unchanged_except_def)
  next
    fix i and t :: "'d state"
    assume i: "0 \<le> i" "i < dim_i" and I: "?I i t"
    show "(\<exists>t'. ?body i t = Inr ((), t') \<and> ?I (i + 1) t') \<or> (\<exists>e. ?body i t = Inl e \<and> ?E e)"
    proof (cases "i = k")
      case True
      from ov have "int_result (k * dim_j) t = Inl (Int_overflow (k * dim_j))"
        by (intro int_result_overflow) simp
      then have "?step k 0 t = Inl (Int_overflow (k * dim_j))" by (simp add: bind_def)
      with dims(2) have "?body k t = Inl (Int_overflow (k * dim_j))"
        by (intro for_loop_fail) auto
      then show ?thesis by (simp add: True)
    next
      case False
      with I have lt: "i + 1 \<le> k" by simp
      then have "(i + 1) * dim_j \<le> k * dim_j"
        using dims(2) by (intro mult_right_mono) auto
      with ov have row: "(i + 1) * dim_j \<le> INT_MAX + 1" by simp
      from I have inv: "centred A a mean b dim_j s (i * dim_j) t" by simp
      from centred_inner [OF i dims(2,3) row len ne inv] lt
      show ?thesis by simp
    qed
  qed
  with k show ?thesis by (auto simp: remove_mean_col_def)
qed

text \<open>The buffers of the state \<open>huge\<close>.\<close>

lemma huge_lengths:
  "length (heap huge 0) = nat (3 * 1073741824)" "length (heap huge 1) = nat 1073741824"
  "length (heap huge 2) = nat 1073741824" "length (heap huge 3) = nat (3 * 1073741824)"
  "length (heap huge (Suc 0)) = nat 1073741824"
  unfolding huge_def by (simp_all only: state.simps fun_upd_apply length_replicate) simp_all
section \<open>The constant Twopi\<close>

text \<open>
  Bounds of the arc tangent from the alternating series, and of \<open>pi\<close> from Machin's
  formula: \<open>pi\<close> to 17 decimals.
\<close>

lemma arctan_between:
  fixes x :: real
  assumes "0 < x" and "x \<le> 1"
  shows "(\<Sum>i<2 * n. (- 1) ^ i * (1 / real (i * 2 + 1) * x ^ (i * 2 + 1))) \<le> arctan x"
    and "arctan x \<le> (\<Sum>i<2 * n + 1. (- 1) ^ i * (1 / real (i * 2 + 1) * x ^ (i * 2 + 1)))"
proof -
  from assms have x: "\<bar>x\<bar> \<le> 1" by simp
  from assms have "0 < 1 / real (0 * 2 + 1) * x ^ (0 * 2 + 1)" by simp
  with summable_Leibniz(2) [OF zeroseq_arctan_series [OF x] monoseq_arctan_series [OF x]]
  have "arctan x \<in> {(\<Sum>i<2 * n. (- 1) ^ i * (1 / real (i * 2 + 1) * x ^ (i * 2 + 1))) ..
      (\<Sum>i<2 * n + 1. (- 1) ^ i * (1 / real (i * 2 + 1) * x ^ (i * 2 + 1)))}"
    unfolding arctan_series [OF x] by blast
  then show "(\<Sum>i<2 * n. (- 1) ^ i * (1 / real (i * 2 + 1) * x ^ (i * 2 + 1))) \<le> arctan x"
    and "arctan x \<le> (\<Sum>i<2 * n + 1. (- 1) ^ i * (1 / real (i * 2 + 1) * x ^ (i * 2 + 1)))"
    by simp_all
qed

lemma arctan_fifth:
  "157490522761940959144868 / 797842276096343994140625 \<le> arctan (1 / 5)"
  "arctan (1 / 5) \<le> 98431576726213099532470361 / 498651422560214996337890625"
  using arctan_between(1) [of "1 / 5" 6] arctan_between(2) [of "1 / 5" 6]
  by (simp_all add: lessThan_nat_numeral lessThan_Suc power_divide)

lemma arctan_239th:
  "19569249503065996 / 4677077924340368295 \<le> arctan (1 / 239)"
  "arctan (1 / 239) \<le> 3353445302593898272583 / 801478104348738532136085"
  using arctan_between(1) [of "1 / 239" 2] arctan_between(2) [of "1 / 239" 2]
  by (simp_all add: lessThan_nat_numeral lessThan_Suc power_divide)

lemma pi_bounds:
  "3141592653589793235 / 10 ^ 18 \<le> pi" "pi \<le> 3141592653589793242 / 10 ^ 18"
proof -
  have "pi = 16 * arctan (1 / 5) - 4 * arctan (1 / 239)"
    using machin by simp
  with arctan_fifth arctan_239th
  show "3141592653589793235 / 10 ^ 18 \<le> pi" "pi \<le> 3141592653589793242 / 10 ^ 18"
    by simp_all
qed

lemma Twopi_close: "\<bar>real_of_rat Twopi - 2 * pi\<bar> \<le> 1 / 10 ^ 17"
proof -
  have t: "real_of_rat Twopi = 62831853071795864769252867665590057683943387987502 / 10 ^ 49"
    by (simp add: Twopi_def of_rat_divide of_rat_power)
  have "real_of_rat Twopi - 2 * pi \<le> 1 / 10 ^ 17" "- (real_of_rat Twopi - 2 * pi) \<le> 1 / 10 ^ 17"
    unfolding t using pi_bounds by simp_all
  then show ?thesis by (simp only: abs_le_iff)
qed

lemma double_Twopi_close:
  "\<bar>real_of_rat (884279719003555 / 140737488355328) - 2 * pi\<bar> < 1 / 2 ^ 51"
proof -
  have t: "real_of_rat (884279719003555 / 140737488355328) = 884279719003555 / 140737488355328"
    by (simp add: of_rat_divide)
  have "real_of_rat (884279719003555 / 140737488355328) - 2 * pi < 1 / 2 ^ 51"
    "- (real_of_rat (884279719003555 / 140737488355328) - 2 * pi) < 1 / 2 ^ 51"
    unfolding t using pi_bounds by simp_all
  then show ?thesis by (simp only: abs_less_iff)
qed

lemma cos_lipschitz: "\<bar>cos a - cos b\<bar> \<le> \<bar>a - b\<bar>" for a b :: real
proof -
  have "\<bar>cos a - cos b\<bar> = 2 * \<bar>sin ((a + b) / 2)\<bar> * \<bar>sin ((b - a) / 2)\<bar>"
    by (simp add: cos_diff_cos abs_mult)
  also have "\<dots> \<le> 2 * 1 * \<bar>(b - a) / 2\<bar>"
    by (intro mult_mono abs_sin_le_one abs_sin_x_le_abs_x) simp_all
  finally show ?thesis by simp
qed

lemma Twopi_double: "d_lit b64_arith Twopi = Some (884279719003555 / 140737488355328)"
  by code_simp
section \<open>The claims\<close>

text \<open>
  C1. The claim is that \<open>modify_mean_stddev\<close> replaces every element of the matrix by
  its old value times \<open>new_stddev\<close> plus \<open>new_mean\<close>. The function reads the element at
  \<open>i * dim_j + j\<close> and writes the result at \<open>i * dim_i + j\<close>. On a matrix with 2 rows
  and 3 columns the second row is read at the offsets 3, 4, 5 and written at the offsets
  2, 3, 4: the transformed third element is overwritten, the elements of the second row
  land one place to the left, and the last element keeps its old value. So it is in every
  arithmetic; in binary64, the matrix (1, 2, 3), (4, 5, 6) with \<open>new_mean = 10\<close> and
  \<open>new_stddev = 2\<close> becomes (12, 14, 18), (20, 22, 6) and not (12, 14, 16), (18, 20, 22).
  The function does what the claim says where the two offsets agree, for a square matrix
  and for a single row, with dimensions and offsets that \<^verbatim>\<open>int\<close> can hold (lemma
  \<open>modify_mean_stddev_same_stride\<close>).
\<close>

theorem modify_mean_stddev_2_by_3:
  "buffer_after
     (modify_mean_stddev A mtx new_mean new_stddev 2 3
        (s\<lparr>heap := (heap s)(mtx := [x0, x1, x2, x3, x4, x5])\<rparr>)) mtx =
   Inr [d_add A (d_mul A x0 new_stddev) new_mean,
        d_add A (d_mul A x1 new_stddev) new_mean,
        d_add A (d_mul A x3 new_stddev) new_mean,
        d_add A (d_mul A x4 new_stddev) new_mean,
        d_add A (d_mul A x5 new_stddev) new_mean,
        x5] \<and>
   buffer_after
     (modify_mean_stddev b64_arith 0 (Some 10) (Some 2) 2 3
        \<lparr>heap = (\<lambda>p. [])(0 := [Some 1, Some 2, Some 3, Some 4, Some 5, Some 6]),
         trace = [], stdout = []\<rparr>) 0 =
   Inr [Some 12, Some 14, Some 18, Some 20, Some 22, Some 6]"
proof -
  have "d_add b64_arith (d_mul b64_arith (Some 1) (Some 2)) (Some 10) = Some 12"
    "d_add b64_arith (d_mul b64_arith (Some 2) (Some 2)) (Some 10) = Some 14"
    "d_add b64_arith (d_mul b64_arith (Some 4) (Some 2)) (Some 10) = Some 18"
    "d_add b64_arith (d_mul b64_arith (Some 5) (Some 2)) (Some 10) = Some 20"
    "d_add b64_arith (d_mul b64_arith (Some 6) (Some 2)) (Some 10) = Some 22"
    by code_simp+
  then show ?thesis
    by (simp add: modify_mean_stddev_def exec_simps buffer_after_def)
qed

text \<open>
  C2. The claim is made for every matrix with \<open>dim_i \<ge> 1\<close> rows and \<open>dim_j \<ge> 1\<close>
  columns. The offsets of the elements are computed in \<^verbatim>\<open>int\<close>. On a matrix with 3 rows
  and \<open>2^30\<close> columns, in a buffer of \<open>3 * 2^30\<close> doubles with an output vector of
  \<open>2^30\<close> elements, \<open>stat_mean\<close> sums the rows 0 and 1 and then computes
  \<open>n = 2 * 2^30\<close> for row 2, which is \<open>INT_MAX + 1\<close>: the run ends in the overflow of
  \<^verbatim>\<open>int\<close>, which is undefined in C, before any sum is divided by \<open>dim_i\<close>.
\<close>

theorem stat_mean_int_overflow:
  "(1::int) \<le> 3 \<and> (1::int) \<le> 1073741824 \<and>
   length (heap huge 0) = nat (3 * 1073741824) \<and> length (heap huge 1) = nat 1073741824 \<and>
   (1::nat) \<noteq> 0 \<and>
   stat_mean exact_arith 0 1 3 1073741824 huge = Inl (Int_overflow 2147483648)"
proof -
  have "stat_mean exact_arith 0 1 3 1073741824 huge = Inl (Int_overflow (2 * 1073741824))"
    by (rule stat_mean_overflow) (simp_all add: huge_lengths INT_MAX_def)
  then show ?thesis by (simp add: huge_lengths)
qed

text \<open>
  C2, amended. For every matrix \<open>a\<close> with \<open>dim_i \<ge> 1\<close> rows and \<open>dim_j \<ge> 1\<close>
  columns and dimensions and offsets that \<^verbatim>\<open>int\<close> can hold
  (\<open>dim_i, dim_j \<le> INT_MAX\<close> and \<open>dim_i * dim_j \<le> INT_MAX + 1 = 2^31\<close>), in a
  buffer of \<open>dim_i * dim_j\<close> elements, and an output vector of \<open>dim_j\<close> elements in a
  buffer of its own,
  \<open>stat_mean\<close> returns and has written, for each column \<open>j\<close>,
  \<open>mean[j] = (sum over the rows i of a[i * dim_j + j]) / dim_i\<close>, the sum taken from row 0
  on, starting from 0. On the way it has loaded each of the \<open>dim_i * dim_j\<close> elements of
  \<open>a\<close> exactly once: the loads of \<open>a\<close> in the log are those of the indices
  \<open>0, \<dots>, dim_i * dim_j - 1\<close>, in this order.
\<close>

theorem stat_mean_correct:
  assumes "1 \<le> dim_i" and "1 \<le> dim_j"
    and "dim_i \<le> INT_MAX" and "dim_j \<le> INT_MAX" and "dim_i * dim_j \<le> INT_MAX + 1"
    and "length (heap s a) = nat (dim_i * dim_j)"
    and "length (heap s mean) = nat dim_j"
    and "mean \<noteq> a"
  shows "\<exists>s'. stat_mean A a mean dim_i dim_j s = Inr ((), s') \<and>
           length (heap s' mean) = nat dim_j \<and>
           (\<forall>j. 0 \<le> j \<and> j < dim_j \<longrightarrow>
              heap s' mean ! nat j =
                d_div A (d_sum A (column (heap s a) dim_j dim_i j)) (d_of_int A dim_i)) \<and>
           (\<exists>tr. trace s' = trace s @ tr \<and> loads_of a tr = [0..dim_i * dim_j - 1])"
proof -
  from assms have "\<exists>s'. stat_mean A a mean dim_i dim_j s = Inr ((), s') \<and>
      finalised A (\<lambda>_ x. x) (\<lambda>v. d_div A v (d_of_int A dim_i)) a mean dim_i dim_j s dim_j s' \<and>
      loaded a s (dim_i * dim_j) s'"
    by (intro stat_mean_effect) auto
  then obtain s' where r: "stat_mean A a mean dim_i dim_j s = Inr ((), s')"
    and f: "finalised A (\<lambda>_ x. x) (\<lambda>v. d_div A v (d_of_int A dim_i)) a mean dim_i dim_j s dim_j s'"
    and l: "loaded a s (dim_i * dim_j) s'" by blast
  from f assms(7) have "length (heap s' mean) = nat dim_j"
    by (simp add: finalised_def unchanged_except_def)
  moreover from f have "\<forall>j. 0 \<le> j \<and> j < dim_j \<longrightarrow>
      heap s' mean ! nat j =
        d_div A (d_sum A (column (heap s a) dim_j dim_i j)) (d_of_int A dim_i)"
    by (simp add: finalised_def)
  moreover from l have "\<exists>tr. trace s' = trace s @ tr \<and> loads_of a tr = [0..dim_i * dim_j - 1]"
    by (simp add: loaded_def)
  ultimately show ?thesis using r by blast
qed

theorem stat_mean_correct_witness:
  "(1::int) \<le> 3 \<and> (1::int) \<le> 2 \<and> (3::int) \<le> INT_MAX \<and> (2::int) \<le> INT_MAX \<and> (3::int) * 2 \<le> INT_MAX + 1 \<and>
   length (heap scenario 0) = nat (3 * 2) \<and>
   length (heap scenario 1) = nat 2 \<and> (1::nat) \<noteq> 0 \<and>
   (\<exists>s'. stat_mean exact_arith 0 1 3 2 scenario = Inr ((), s') \<and>
      heap s' 1 ! 0 = 3 \<and> heap s' 1 ! 1 = 4 \<and>
      (\<exists>tr. trace s' = trace scenario @ tr \<and> loads_of 0 tr = [0, 1, 2, 3, 4, 5]))"
proof -
  have i: "(3::int) \<le> INT_MAX" "(2::int) \<le> INT_MAX" "(3::int) * 2 \<le> INT_MAX + 1"
    by (simp_all add: INT_MAX_def)
  have h: "length (heap scenario 0) = nat (3 * 2)" "length (heap scenario 1) = nat 2"
    by (simp_all add: scenario_def)
  from stat_mean_correct [of 3 2 scenario 0 1 exact_arith, OF _ _ i h]
  obtain s' where r: "stat_mean exact_arith 0 1 3 2 scenario = Inr ((), s')"
    and m: "\<forall>j. 0 \<le> j \<and> j < 2 \<longrightarrow> heap s' 1 ! nat j =
        d_div exact_arith (d_sum exact_arith (column (heap scenario 0) 2 3 j)) (d_of_int exact_arith 3)"
    and t: "\<exists>tr. trace s' = trace scenario @ tr \<and> loads_of 0 tr = [0..3 * 2 - 1]"
    by auto
  from m [rule_format, of 0] have "heap s' 1 ! 0 = 3"
    by (simp add: column_def d_sum_def scenario_def exact_arith_def upto.simps)
  moreover from m [rule_format, of 1] have "heap s' 1 ! 1 = 4"
    by (simp add: column_def d_sum_def scenario_def exact_arith_def upto.simps)
  moreover from t have "\<exists>tr. trace s' = trace scenario @ tr \<and> loads_of 0 tr = [0, 1, 2, 3, 4, 5]"
    by (simp add: upto.simps)
  ultimately show ?thesis using r h i by simp
qed

text \<open>
  C3. The claim is made for every matrix with \<open>dim_i \<ge> 2\<close> rows. On the matrix with 3
  rows and \<open>2^30\<close> columns, with a mean vector and an output vector of \<open>2^30\<close>
  elements, \<open>stat_std\<close> accumulates the rows 0 and 1 and then computes \<open>n = 2 * 2^30\<close>
  for row 2: the run ends in the overflow of \<^verbatim>\<open>int\<close> and no standard deviation is
  written.
\<close>

theorem stat_std_int_overflow:
  "(2::int) \<le> 3 \<and> (1::int) \<le> 1073741824 \<and>
   length (heap huge 0) = nat (3 * 1073741824) \<and> length (heap huge 1) = nat 1073741824 \<and>
   length (heap huge 2) = nat 1073741824 \<and> (2::nat) \<noteq> 0 \<and> (2::nat) \<noteq> 1 \<and>
   stat_std exact_arith 0 1 2 3 1073741824 huge = Inl (Int_overflow 2147483648)"
proof -
  have "stat_std exact_arith 0 1 2 3 1073741824 huge = Inl (Int_overflow (2 * 1073741824))"
    by (rule stat_std_overflow) (simp_all add: huge_lengths INT_MAX_def)
  then show ?thesis by (simp add: huge_lengths)
qed

text \<open>
  C3, amended. For every matrix \<open>a\<close> with \<open>dim_i \<ge> 2\<close> rows and \<open>dim_j \<ge> 1\<close>
  columns and dimensions and offsets that \<^verbatim>\<open>int\<close> can hold
  (\<open>dim_i, dim_j \<le> INT_MAX\<close> and \<open>dim_i * dim_j \<le> INT_MAX + 1 = 2^31\<close>) and every
  supplied mean vector of length \<open>dim_j\<close>, \<open>stat_std\<close> returns and has written into the output vector, a
  buffer of its own, for each column \<open>j\<close>,
  \<open>std[j] = sqrt ((sum over the rows i of (a[i * dim_j + j] - mean[j])\<^sup>2) / (dim_i - 1))\<close>:
  the sample standard deviation, with the divisor \<open>dim_i - 1\<close>.
\<close>

theorem stat_std_correct:
  assumes "2 \<le> dim_i" and "1 \<le> dim_j"
    and "dim_i \<le> INT_MAX" and "dim_j \<le> INT_MAX" and "dim_i * dim_j \<le> INT_MAX + 1"
    and "length (heap s a) = nat (dim_i * dim_j)"
    and "length (heap s mean) = nat dim_j"
    and "length (heap s std) = nat dim_j"
    and "std \<noteq> a" and "std \<noteq> mean"
  shows "\<exists>s'. stat_std A a mean std dim_i dim_j s = Inr ((), s') \<and>
           length (heap s' std) = nat dim_j \<and>
           (\<forall>j. 0 \<le> j \<and> j < dim_j \<longrightarrow>
              heap s' std ! nat j =
                d_sqrt A (d_div A
                  (d_sum A (map (sq_dev A (heap s mean ! nat j)) (column (heap s a) dim_j dim_i j)))
                  (d_of_int A (dim_i - 1))))"
proof -
  from assms have "\<exists>s'. stat_std A a mean std dim_i dim_j s = Inr ((), s') \<and>
           finalised A (\<lambda>k. sq_dev A (heap s mean ! nat k))
             (\<lambda>v. d_sqrt A (d_div A v (d_of_int A (dim_i - 1)))) a std dim_i dim_j s dim_j s'"
    by (intro stat_std_effect) auto
  then obtain s' where r: "stat_std A a mean std dim_i dim_j s = Inr ((), s')"
    and f: "finalised A (\<lambda>k. sq_dev A (heap s mean ! nat k))
             (\<lambda>v. d_sqrt A (d_div A v (d_of_int A (dim_i - 1)))) a std dim_i dim_j s dim_j s'"
    by blast
  from f assms(8) have "length (heap s' std) = nat dim_j"
    by (simp add: finalised_def unchanged_except_def)
  moreover from f have "\<forall>j. 0 \<le> j \<and> j < dim_j \<longrightarrow>
              heap s' std ! nat j =
                d_sqrt A (d_div A
                  (d_sum A (map (sq_dev A (heap s mean ! nat j)) (column (heap s a) dim_j dim_i j)))
                  (d_of_int A (dim_i - 1)))"
    by (simp add: finalised_def)
  ultimately show ?thesis using r by blast
qed

theorem stat_std_correct_witness:
  "(2::int) \<le> 3 \<and> (1::int) \<le> 2 \<and> (3::int) \<le> INT_MAX \<and> (2::int) \<le> INT_MAX \<and> (3::int) * 2 \<le> INT_MAX + 1 \<and>
   length (heap scenario_mean 0) = nat (3 * 2) \<and>
   length (heap scenario_mean 1) = nat 2 \<and> length (heap scenario_mean 2) = nat 2 \<and>
   (2::nat) \<noteq> 0 \<and> (2::nat) \<noteq> 1 \<and>
   (\<exists>s'. stat_std exact_arith 0 1 2 3 2 scenario_mean = Inr ((), s') \<and>
      heap s' 2 ! 0 = 2 \<and> heap s' 2 ! 1 = 2)"
proof -
  have i: "(3::int) \<le> INT_MAX" "(2::int) \<le> INT_MAX" "(3::int) * 2 \<le> INT_MAX + 1"
    by (simp_all add: INT_MAX_def)
  have h: "length (heap scenario_mean 0) = nat (3 * 2)" "length (heap scenario_mean 1) = nat 2"
      "length (heap scenario_mean 2) = nat 2"
    by (simp_all add: scenario_mean_def)
  have four: "sqrt 4 = 2"
    using real_sqrt_abs [of 2] by simp
  from stat_std_correct [of 3 2 scenario_mean 0 1 2 exact_arith, OF _ _ i h]
  obtain s' where r: "stat_std exact_arith 0 1 2 3 2 scenario_mean = Inr ((), s')"
    and m: "\<forall>j. 0 \<le> j \<and> j < 2 \<longrightarrow> heap s' 2 ! nat j =
        d_sqrt exact_arith (d_div exact_arith
          (d_sum exact_arith (map (sq_dev exact_arith (heap scenario_mean 1 ! nat j))
             (column (heap scenario_mean 0) 2 3 j)))
          (d_of_int exact_arith (3 - 1)))"
    by auto
  from m [rule_format, of 0] have "heap s' 2 ! 0 = 2"
    by (simp add: column_def d_sum_def sq_dev_def scenario_mean_def exact_arith_def upto.simps four)
  moreover from m [rule_format, of 1] have "heap s' 2 ! 1 = 2"
    by (simp add: column_def d_sum_def sq_dev_def scenario_mean_def exact_arith_def upto.simps four)
  ultimately show ?thesis using r h i by simp
qed

text \<open>
  C4. The claim is made for every matrix with \<open>dim_i \<ge> 1\<close> rows and \<open>dim_j \<ge> 1\<close>
  columns. On the matrix with 3 rows and \<open>2^30\<close> columns, with a mean vector of \<open>2^30\<close>
  elements and an output buffer of \<open>3 * 2^30\<close> elements, \<open>remove_mean_col\<close> centres
  the rows 0 and 1 and then computes the offset \<open>2 * 2^30 + 0\<close> of the first element of
  row 2: the run ends in the overflow of \<^verbatim>\<open>int\<close> and row 2 of \<open>b\<close> is not written.
\<close>

theorem remove_mean_col_int_overflow:
  "(1::int) \<le> 3 \<and> (1::int) \<le> 1073741824 \<and>
   length (heap huge 0) = nat (3 * 1073741824) \<and> length (heap huge 1) = nat 1073741824 \<and>
   length (heap huge 3) = nat (3 * 1073741824) \<and> (3::nat) \<noteq> 0 \<and> (3::nat) \<noteq> 1 \<and>
   remove_mean_col exact_arith 0 1 3 3 1073741824 huge = Inl (Int_overflow 2147483648)"
proof -
  have "remove_mean_col exact_arith 0 1 3 3 1073741824 huge =
      Inl (Int_overflow (2 * 1073741824))"
    by (rule remove_mean_col_overflow) (simp_all add: huge_lengths INT_MAX_def)
  then show ?thesis by (simp add: huge_lengths)
qed

text \<open>
  C4, amended. For every matrix \<open>a\<close> with \<open>dim_i \<ge> 1\<close> rows and \<open>dim_j \<ge> 1\<close>
  columns and dimensions and offsets that \<^verbatim>\<open>int\<close> can hold
  (\<open>dim_i, dim_j \<le> INT_MAX\<close> and \<open>dim_i * dim_j \<le> INT_MAX + 1 = 2^31\<close>) and every
  mean vector of length \<open>dim_j\<close>, \<open>remove_mean_col\<close> returns and has written into the distinct output buffer
  \<open>b\<close> exactly \<open>b[i * dim_j + j] = a[i * dim_j + j] - mean[j]\<close>, for every row \<open>i\<close> and
  column \<open>j\<close>.
\<close>

theorem remove_mean_col_correct:
  assumes "1 \<le> dim_i" and "1 \<le> dim_j"
    and "dim_i \<le> INT_MAX" and "dim_j \<le> INT_MAX" and "dim_i * dim_j \<le> INT_MAX + 1"
    and "length (heap s a) = nat (dim_i * dim_j)"
    and "length (heap s mean) = nat dim_j"
    and "length (heap s b) = nat (dim_i * dim_j)"
    and "b \<noteq> a" and "b \<noteq> mean"
  shows "\<exists>s'. remove_mean_col A a mean b dim_i dim_j s = Inr ((), s') \<and>
           length (heap s' b) = nat (dim_i * dim_j) \<and>
           (\<forall>i j. 0 \<le> i \<and> i < dim_i \<and> 0 \<le> j \<and> j < dim_j \<longrightarrow>
              heap s' b ! nat (i * dim_j + j) =
                d_sub A (heap s a ! nat (i * dim_j + j)) (heap s mean ! nat j))"
proof -
  from assms have "\<exists>s'. remove_mean_col A a mean b dim_i dim_j s = Inr ((), s') \<and>
         centred A a mean b dim_j s (dim_i * dim_j) s'"
    by (intro centred_outer) auto
  then obtain s' where r: "remove_mean_col A a mean b dim_i dim_j s = Inr ((), s')"
    and c: "centred A a mean b dim_j s (dim_i * dim_j) s'" by blast
  have "heap s' b ! nat (i * dim_j + j) =
          d_sub A (heap s a ! nat (i * dim_j + j)) (heap s mean ! nat j)"
    if "0 \<le> i" "i < dim_i" "0 \<le> j" "j < dim_j" for i j
  proof -
    from idx_bound [OF that] have "0 \<le> i * dim_j + j" "i * dim_j + j < dim_i * dim_j" .
    moreover have "(i * dim_j + j) mod dim_j = j" using that by simp
    ultimately show ?thesis using c by (auto simp: centred_def)
  qed
  moreover have "length (heap s' b) = nat (dim_i * dim_j)"
    using c assms(8) by (simp add: centred_def unchanged_except_def)
  ultimately show ?thesis using r by blast
qed

theorem remove_mean_col_correct_witness:
  "(1::int) \<le> 3 \<and> (1::int) \<le> 2 \<and> (3::int) \<le> INT_MAX \<and> (2::int) \<le> INT_MAX \<and> (3::int) * 2 \<le> INT_MAX + 1 \<and>
   length (heap scenario_mean 0) = nat (3 * 2) \<and>
   length (heap scenario_mean 1) = nat 2 \<and> length (heap scenario_mean 3) = nat (3 * 2) \<and>
   (3::nat) \<noteq> 0 \<and> (3::nat) \<noteq> 1 \<and>
   (\<exists>s'. remove_mean_col exact_arith 0 1 3 3 2 scenario_mean = Inr ((), s') \<and>
      heap s' 3 ! 0 = - 2 \<and> heap s' 3 ! 1 = - 2 \<and> heap s' 3 ! 2 = 0 \<and>
      heap s' 3 ! 3 = 0 \<and> heap s' 3 ! 4 = 2 \<and> heap s' 3 ! 5 = 2)"
proof -
  have i: "(3::int) \<le> INT_MAX" "(2::int) \<le> INT_MAX" "(3::int) * 2 \<le> INT_MAX + 1"
    by (simp_all add: INT_MAX_def)
  have h: "length (heap scenario_mean 0) = nat (3 * 2)" "length (heap scenario_mean 1) = nat 2"
      "length (heap scenario_mean 3) = nat (3 * 2)"
    by (simp_all add: scenario_mean_def)
  from remove_mean_col_correct [of 3 2 scenario_mean 0 1 3 exact_arith, OF _ _ i h]
  obtain s' where r: "remove_mean_col exact_arith 0 1 3 3 2 scenario_mean = Inr ((), s')"
    and m: "\<forall>i j. 0 \<le> i \<and> i < 3 \<and> 0 \<le> j \<and> j < 2 \<longrightarrow>
              heap s' 3 ! nat (i * 2 + j) =
                d_sub exact_arith (heap scenario_mean 0 ! nat (i * 2 + j)) (heap scenario_mean 1 ! nat j)"
    by auto
  have "heap s' 3 ! 0 = - 2" "heap s' 3 ! 1 = - 2" "heap s' 3 ! 2 = 0"
       "heap s' 3 ! 3 = 0" "heap s' 3 ! 4 = 2" "heap s' 3 ! 5 = 2"
    using m [rule_format, of 0 0] m [rule_format, of 0 1] m [rule_format, of 1 0]
      m [rule_format, of 1 1] m [rule_format, of 2 0] m [rule_format, of 2 1]
    by (simp_all add: scenario_mean_def exact_arith_def)
  then show ?thesis using r h i by simp
qed

text \<open>
  C5. A call of \<open>randn\<close> draws one number from the generator: the state it leaves is the
  state after one call of \<open>rand\<close>. With \<open>u\<close> the number drawn divided by
  \<open>RAND_MAX\<close>, the value returned is \<open>sqrt (-2 * log u) * cos (Twopi * u)\<close>, the same
  \<open>u\<close> under the root and in the angle, in every arithmetic; \<open>Twopi\<close> is the decimal
  \<open>6.2831853071795864769252867665590057683943387987502\<close> of the source.
  \<^item> The decimal is \<open>2 * pi\<close> to 17 places, and the double it denotes,
    \<open>884279719003555 / 2^47\<close>, is nearer to \<open>2 * pi\<close> than half the distance
    \<open>2^(-50)\<close> between the doubles from 4 to 8: it is the double nearest to \<open>2 * pi\<close>.
  \<^item> In exact arithmetic and with the logarithm and the cosine of the reals, a draw
    from 1 to \<open>RAND_MAX\<close> gives a \<open>u\<close> in (0, 1], and the value returned differs from
    \<open>sqrt (-2 * ln u) * cos (2 * pi * u)\<close> by at most \<open>sqrt (-2 * ln u) / 10^17\<close>.
  \<^item> The draw 0 gives \<open>u = 0\<close>, of which a logarithm is not a finite number: in binary64
    arithmetic the value returned is then not a finite number either.
\<close>

theorem randn_single_draw:
  fixes R :: "real libm" and M :: "rat option libm"
  shows
  "randn A L rand RAND_MAX g =
     (let u = d_div A (d_of_int A (fst (rand g))) (d_of_int A RAND_MAX)
      in (d_mul A (d_sqrt A (d_mul A (d_neg A (d_lit A 2)) (d_log L u)))
            (d_cos L (d_mul A
               (d_lit A (62831853071795864769252867665590057683943387987502 / 10 ^ 49)) u)),
          snd (rand g))) \<and>
   \<bar>real_of_rat Twopi - 2 * pi\<bar> \<le> 1 / 10 ^ 17 \<and>
   d_lit b64_arith Twopi = Some (884279719003555 / 140737488355328) \<and>
   \<bar>real_of_rat (884279719003555 / 140737488355328) - 2 * pi\<bar> < 1 / 2 ^ 51 \<and>
   ((\<forall>x. 0 < x \<longrightarrow> d_log R x = ln x) \<and> (\<forall>x. d_cos R x = cos x) \<and>
    0 < fst (rand g) \<and> fst (rand g) \<le> RAND_MAX \<longrightarrow>
      (let u = real_of_int (fst (rand g)) / real_of_int RAND_MAX
       in 0 < u \<and> u \<le> 1 \<and>
          randn exact_arith R rand RAND_MAX g =
            (sqrt (- 2 * ln u) * cos (real_of_rat Twopi * u), snd (rand g)) \<and>
          \<bar>fst (randn exact_arith R rand RAND_MAX g) - sqrt (- 2 * ln u) * cos (2 * pi * u)\<bar>
            \<le> sqrt (- 2 * ln u) / 10 ^ 17)) \<and>
   (d_log M (Some 0) = None \<and> fst (rand g) = 0 \<and> 0 < RAND_MAX \<and> RAND_MAX \<le> INT_MAX \<longrightarrow>
      fst (randn b64_arith M rand RAND_MAX g) = None)"
proof -
  have 1: "randn A L rand RAND_MAX g =
     (let u = d_div A (d_of_int A (fst (rand g))) (d_of_int A RAND_MAX)
      in (d_mul A (d_sqrt A (d_mul A (d_neg A (d_lit A 2)) (d_log L u)))
            (d_cos L (d_mul A
               (d_lit A (62831853071795864769252867665590057683943387987502 / 10 ^ 49)) u)),
          snd (rand g)))"
    by (simp add: randn_def Twopi_def Let_def split: prod.splits)
  have 5: "let u = real_of_int (fst (rand g)) / real_of_int RAND_MAX
       in 0 < u \<and> u \<le> 1 \<and>
          randn exact_arith R rand RAND_MAX g =
            (sqrt (- 2 * ln u) * cos (real_of_rat Twopi * u), snd (rand g)) \<and>
          \<bar>fst (randn exact_arith R rand RAND_MAX g) - sqrt (- 2 * ln u) * cos (2 * pi * u)\<bar>
            \<le> sqrt (- 2 * ln u) / 10 ^ 17"
    if hl: "\<forall>x. 0 < x \<longrightarrow> d_log R x = ln x" and hc: "\<forall>x. d_cos R x = cos x"
      and r: "0 < fst (rand g)" "fst (rand g) \<le> RAND_MAX"
  proof -
    define u where "u = real_of_int (fst (rand g)) / real_of_int RAND_MAX"
    from r have u: "0 < u" "u \<le> 1" by (simp_all add: u_def)
    define w where "w = sqrt (- 2 * ln u)"
    from u have "ln u \<le> 0" by simp
    then have w: "0 \<le> w" by (simp add: w_def)
    have "randn exact_arith R rand RAND_MAX g =
        (sqrt (- 2 * d_log R u) * d_cos R (real_of_rat Twopi * u), snd (rand g))"
      by (simp add: randn_def exact_arith_def Let_def case_prod_beta u_def)
    also have "d_log R u = ln u" using hl u(1) by simp
    also have "d_cos R (real_of_rat Twopi * u) = cos (real_of_rat Twopi * u)" using hc by simp
    finally have v: "randn exact_arith R rand RAND_MAX g =
        (w * cos (real_of_rat Twopi * u), snd (rand g))"
      by (simp add: w_def)
    have "\<bar>w * cos (real_of_rat Twopi * u) - w * cos (2 * pi * u)\<bar> =
        w * \<bar>cos (real_of_rat Twopi * u) - cos (2 * pi * u)\<bar>"
      using w by (simp add: right_diff_distrib [symmetric] abs_mult)
    also have "\<dots> \<le> w * \<bar>real_of_rat Twopi * u - 2 * pi * u\<bar>"
      using w by (intro mult_left_mono cos_lipschitz)
    also have "\<bar>real_of_rat Twopi * u - 2 * pi * u\<bar> = \<bar>real_of_rat Twopi - 2 * pi\<bar> * u"
      using u by (simp add: left_diff_distrib [symmetric] abs_mult)
    also have "w * (\<bar>real_of_rat Twopi - 2 * pi\<bar> * u) \<le> w * (1 / 10 ^ 17 * 1)"
      using w u Twopi_close by (intro mult_left_mono mult_mono) simp_all
    finally have "\<bar>w * cos (real_of_rat Twopi * u) - w * cos (2 * pi * u)\<bar> \<le> w / 10 ^ 17"
      by simp
    with u v show ?thesis
      unfolding Let_def u_def [symmetric] w_def [symmetric] by simp
  qed
  have 6: "fst (randn b64_arith M rand RAND_MAX g) = None"
    if "d_log M (Some 0) = None" "fst (rand g) = 0" "0 < RAND_MAX" "RAND_MAX \<le> INT_MAX"
  proof -
    from that(3,4) have "d_div b64_arith (Some 0) (d_of_int b64_arith RAND_MAX) = Some 0"
      by (intro b64_zero_div) simp_all
    then show ?thesis using that(1,2)
      by (simp add: randn_def Let_def case_prod_beta b64_zero_laws b64_not_finite)
  qed
  from 1 Twopi_close Twopi_double double_Twopi_close 5 6 show ?thesis by blast
qed

theorem randn_single_draw_witness:
  "(0::int) < 16384 \<and> (16384::int) \<le> 32767 \<and> (32767::int) \<le> INT_MAX \<and>
   (let u = real_of_int 16384 / real_of_int 32767
    in 0 < u \<and> u \<le> 1 \<and>
       randn exact_arith \<lparr>d_log = ln, d_cos = cos\<rparr> (\<lambda>n::nat. (16384, n + 1)) 32767 0 =
         (sqrt (- 2 * ln u) * cos (real_of_rat Twopi * u), 1) \<and>
       \<bar>fst (randn exact_arith \<lparr>d_log = ln, d_cos = cos\<rparr> (\<lambda>n::nat. (16384, n + 1)) 32767 0) -
          sqrt (- 2 * ln u) * cos (2 * pi * u)\<bar> \<le> sqrt (- 2 * ln u) / 10 ^ 17) \<and>
   fst (randn b64_arith \<lparr>d_log = \<lambda>x. None, d_cos = \<lambda>x. x\<rparr> (\<lambda>n::nat. (0, n + 1)) 32767 0) = None"
proof -
  note a = randn_single_draw [of exact_arith "\<lparr>d_log = ln, d_cos = cos\<rparr>"
      "\<lambda>n::nat. (16384, n + 1)" 32767 0 "\<lparr>d_log = ln, d_cos = cos\<rparr>"
      "\<lparr>d_log = \<lambda>x. None, d_cos = \<lambda>x. x\<rparr>"]
  note b = randn_single_draw [of exact_arith "\<lparr>d_log = ln, d_cos = cos\<rparr>"
      "\<lambda>n::nat. (0, n + 1)" 32767 0 "\<lparr>d_log = ln, d_cos = cos\<rparr>"
      "\<lparr>d_log = \<lambda>x. None, d_cos = \<lambda>x. x\<rparr>"]
  have i: "(32767::int) \<le> INT_MAX" by (simp add: INT_MAX_def)
  note a5 = a [THEN conjunct2, THEN conjunct2, THEN conjunct2, THEN conjunct2, THEN conjunct1]
  note b6 = b [THEN conjunct2, THEN conjunct2, THEN conjunct2, THEN conjunct2, THEN conjunct2]
  from a5 have "let u = real_of_int 16384 / real_of_int 32767
    in 0 < u \<and> u \<le> 1 \<and>
       randn exact_arith \<lparr>d_log = ln, d_cos = cos\<rparr> (\<lambda>n::nat. (16384, n + 1)) 32767 0 =
         (sqrt (- 2 * ln u) * cos (real_of_rat Twopi * u), 1) \<and>
       \<bar>fst (randn exact_arith \<lparr>d_log = ln, d_cos = cos\<rparr> (\<lambda>n::nat. (16384, n + 1)) 32767 0) -
          sqrt (- 2 * ln u) * cos (2 * pi * u)\<bar> \<le> sqrt (- 2 * ln u) / 10 ^ 17"
    by simp
  moreover from b6 i
  have "fst (randn b64_arith \<lparr>d_log = \<lambda>x. None, d_cos = \<lambda>x. x\<rparr> (\<lambda>n::nat. (0, n + 1)) 32767 0) = None"
    by simp
  ultimately show ?thesis using i by simp
qed

text \<open>
  C6. The claim is made for every matrix. In binary64 arithmetic the sum of the two
  finite doubles of the column \<open>(2^1023, 2^1023)\<close> is not a finite double: no mean is
  computed and nothing of the matrix comes back. And the column \<open>(1, 2 * 10^16)\<close> has
  the mean \<open>10^16\<close>; \<open>1 - 10^16\<close> is rounded to \<open>-10^16\<close>, and adding the mean gives 0
  where the matrix holds 1: the error of an element is of the size of the rounding error
  of the mean, not of the element.
\<close>

theorem centre_roundtrip_counterexample:
  "length (heap large 0) = nat (2 * 1) \<and> length (heap large 1) = nat 1 \<and>
   length (heap large 3) = nat (2 * 1) \<and>
   heap large 0 = [Some (2 ^ 1023), Some (2 ^ 1023)] \<and>
   (\<exists>t'. mean_then_remove b64_arith 0 1 3 2 1 large = Inr ((), t') \<and>
      heap t' 1 = [None] \<and>
      add_mean_col b64_arith (heap t' 3) (heap t' 1) 2 1 = [None, None]) \<and>
   length (heap spread 0) = nat (2 * 1) \<and> length (heap spread 1) = nat 1 \<and>
   length (heap spread 3) = nat (2 * 1) \<and>
   heap spread 0 = [Some 1, Some 20000000000000000] \<and>
   (\<exists>t'. mean_then_remove b64_arith 0 1 3 2 1 spread = Inr ((), t') \<and>
      heap t' 1 = [Some 10000000000000000] \<and>
      add_mean_col b64_arith (heap t' 3) (heap t' 1) 2 1 = [Some 0, Some 20000000000000000])"
proof -
  from mean_then_remove_2_by_1_returns [of b64_arith "Some (2 ^ 1023)" "Some (2 ^ 1023)"
      "Some 0" "Some 0" "Some 0"]
  obtain t' where r: "mean_then_remove b64_arith 0 1 3 2 1 large = Inr ((), t')"
    unfolding large_def by blast
  note mean_then_remove_2_by_1 [OF r [unfolded large_def], unfolded Let_def b64_zero_laws
      large_arith decimals_arith b64_not_finite]
  with r have 1: "\<exists>t'. mean_then_remove b64_arith 0 1 3 2 1 large = Inr ((), t') \<and>
      heap t' 1 = [None] \<and>
      add_mean_col b64_arith (heap t' 3) (heap t' 1) 2 1 = [None, None]"
    by blast
  from mean_then_remove_2_by_1_returns [of b64_arith "Some 1" "Some 20000000000000000"
      "Some 0" "Some 0" "Some 0"]
  obtain u' where q: "mean_then_remove b64_arith 0 1 3 2 1 spread = Inr ((), u')"
    unfolding spread_def by blast
  note mean_then_remove_2_by_1 [OF q [unfolded spread_def], unfolded Let_def spread_arith]
  with q have 2: "\<exists>t'. mean_then_remove b64_arith 0 1 3 2 1 spread = Inr ((), t') \<and>
      heap t' 1 = [Some 10000000000000000] \<and>
      add_mean_col b64_arith (heap t' 3) (heap t' 1) 2 1 = [Some 0, Some 20000000000000000]"
    by blast
  have "length (heap large 0) = nat (2 * 1)" "length (heap large 1) = nat 1"
    "length (heap large 3) = nat (2 * 1)" "heap large 0 = [Some (2 ^ 1023), Some (2 ^ 1023)]"
    by (simp_all add: large_def)
  moreover have "length (heap spread 0) = nat (2 * 1)" "length (heap spread 1) = nat 1"
    "length (heap spread 3) = nat (2 * 1)" "heap spread 0 = [Some 1, Some 20000000000000000]"
    by (simp_all add: spread_def)
  ultimately show ?thesis using 1 2 by blast
qed

text \<open>
  C6, amended. For every matrix \<open>a\<close> with \<open>dim_i \<ge> 1\<close> rows and \<open>dim_j \<ge> 1\<close>
  columns and dimensions and offsets that \<^verbatim>\<open>int\<close> can hold
  (\<open>dim_i, dim_j \<le> INT_MAX\<close> and \<open>dim_i * dim_j \<le> INT_MAX + 1 = 2^31\<close>):
  computing the column means with \<open>stat_mean\<close>, centring with \<open>remove_mean_col\<close> and adding \<open>mean[j]\<close> back to each
  element of column \<open>j\<close> of the result gives
  \<^item> the original matrix again, exactly, in exact arithmetic on the reals (the state
    \<open>s\<close>);
  \<^item> in binary64 arithmetic, for a matrix of finite doubles of magnitude at most
    \<open>2^990\<close> (the state \<open>t\<close>): finite doubles, of which the one for an element \<open>x\<close> of a
    column with the computed mean \<open>m\<close> is a \<open>y\<close> with
    \<open>\<bar>y - x\<bar> \<le> (\<bar>x\<bar> + \<bar>m\<bar>) / 2^51 + 2^(-1073)\<close>, where \<open>\<bar>m\<bar> \<le> 2^991\<close>.
\<close>

theorem centre_roundtrip:
  fixes s :: "real state" and t :: "rat option state"
  assumes "1 \<le> dim_i" and "1 \<le> dim_j"
    and "dim_i \<le> INT_MAX" and "dim_j \<le> INT_MAX" and "dim_i * dim_j \<le> INT_MAX + 1"
    and "distinct [a, mean, b]"
    and "length (heap s a) = nat (dim_i * dim_j)"
    and "length (heap s mean) = nat dim_j"
    and "length (heap s b) = nat (dim_i * dim_j)"
    and "length (heap t a) = nat (dim_i * dim_j)"
    and "length (heap t mean) = nat dim_j"
    and "length (heap t b) = nat (dim_i * dim_j)"
    and fin: "\<forall>k. 0 \<le> k \<and> k < dim_i * dim_j \<longrightarrow>
                (\<exists>x. heap t a ! nat k = Some x \<and> \<bar>x\<bar> \<le> 2 ^ 990)"
  shows "(\<exists>s'. mean_then_remove exact_arith a mean b dim_i dim_j s = Inr ((), s') \<and>
            add_mean_col exact_arith (heap s' b) (heap s' mean) dim_i dim_j = heap s a) \<and>
         (\<exists>t'. mean_then_remove b64_arith a mean b dim_i dim_j t = Inr ((), t') \<and>
            (\<forall>i j. 0 \<le> i \<and> i < dim_i \<and> 0 \<le> j \<and> j < dim_j \<longrightarrow>
               (\<exists>x m y. heap t a ! nat (i * dim_j + j) = Some x \<and>
                  heap t' mean ! nat j = Some m \<and>
                  add_mean_col b64_arith (heap t' b) (heap t' mean) dim_i dim_j
                    ! nat (i * dim_j + j) = Some y \<and>
                  \<bar>m\<bar> \<le> 2 ^ 991 \<and>
                  \<bar>y - x\<bar> \<le> (\<bar>x\<bar> + \<bar>m\<bar>) / 2 ^ 51 + 1 / 2 ^ 1073)))"
proof -
  have "\<exists>s'. mean_then_remove exact_arith a mean b dim_i dim_j s = Inr ((), s') \<and>
            add_mean_col exact_arith (heap s' b) (heap s' mean) dim_i dim_j = heap s a"
  proof -
    from mean_then_remove_effect [OF assms(1-5) assms(7-9) assms(6), of exact_arith]
    obtain s' where r: "mean_then_remove exact_arith a mean b dim_i dim_j s = Inr ((), s')"
      and l: "length (add_mean_col exact_arith (heap s' b) (heap s' mean) dim_i dim_j) =
          length (heap s a)"
      and e: "\<forall>k. 0 \<le> k \<and> k < dim_i * dim_j \<longrightarrow>
          add_mean_col exact_arith (heap s' b) (heap s' mean) dim_i dim_j ! nat k =
            d_add exact_arith (d_sub exact_arith (heap s a ! nat k)
              (heap s' mean ! nat (k mod dim_j))) (heap s' mean ! nat (k mod dim_j))"
      by blast
    have "add_mean_col exact_arith (heap s' b) (heap s' mean) dim_i dim_j = heap s a"
    proof (rule nth_equalityI [OF l])
      fix n
      assume "n < length (add_mean_col exact_arith (heap s' b) (heap s' mean) dim_i dim_j)"
      with l assms(7) have "0 \<le> int n \<and> int n < dim_i * dim_j" by simp
      with e have "add_mean_col exact_arith (heap s' b) (heap s' mean) dim_i dim_j ! nat (int n) =
            d_add exact_arith (d_sub exact_arith (heap s a ! nat (int n))
              (heap s' mean ! nat (int n mod dim_j))) (heap s' mean ! nat (int n mod dim_j))"
        by blast
      then show "add_mean_col exact_arith (heap s' b) (heap s' mean) dim_i dim_j ! n = heap s a ! n"
        by (simp add: exact_arith_def)
    qed
    with r show ?thesis by blast
  qed
  moreover have "\<exists>t'. mean_then_remove b64_arith a mean b dim_i dim_j t = Inr ((), t') \<and>
            (\<forall>i j. 0 \<le> i \<and> i < dim_i \<and> 0 \<le> j \<and> j < dim_j \<longrightarrow>
               (\<exists>x m y. heap t a ! nat (i * dim_j + j) = Some x \<and>
                  heap t' mean ! nat j = Some m \<and>
                  add_mean_col b64_arith (heap t' b) (heap t' mean) dim_i dim_j
                    ! nat (i * dim_j + j) = Some y \<and>
                  \<bar>m\<bar> \<le> 2 ^ 991 \<and>
                  \<bar>y - x\<bar> \<le> (\<bar>x\<bar> + \<bar>m\<bar>) / 2 ^ 51 + 1 / 2 ^ 1073))"
  proof -
    have p: "pow2 990 = 2 ^ 990" "pow2 (990 + 1) = 2 ^ 991" by (simp_all add: pow2_nat)
    note di = assms(3)
    from mean_then_remove_effect [OF assms(1-5) assms(10-12) assms(6), of b64_arith]
    obtain t' where r: "mean_then_remove b64_arith a mean b dim_i dim_j t = Inr ((), t')"
      and means: "\<forall>j. 0 \<le> j \<and> j < dim_j \<longrightarrow>
          heap t' mean ! nat j =
            d_div b64_arith (d_sum b64_arith (column (heap t a) dim_j dim_i j))
              (d_of_int b64_arith dim_i)"
      and e: "\<forall>k. 0 \<le> k \<and> k < dim_i * dim_j \<longrightarrow>
          add_mean_col b64_arith (heap t' b) (heap t' mean) dim_i dim_j ! nat k =
            d_add b64_arith (d_sub b64_arith (heap t a ! nat k)
              (heap t' mean ! nat (k mod dim_j))) (heap t' mean ! nat (k mod dim_j))"
      by blast
    have "\<exists>x m y. heap t a ! nat (i * dim_j + j) = Some x \<and>
            heap t' mean ! nat j = Some m \<and>
            add_mean_col b64_arith (heap t' b) (heap t' mean) dim_i dim_j
              ! nat (i * dim_j + j) = Some y \<and>
            \<bar>m\<bar> \<le> 2 ^ 991 \<and>
            \<bar>y - x\<bar> \<le> (\<bar>x\<bar> + \<bar>m\<bar>) / 2 ^ 51 + 1 / 2 ^ 1073"
      if ij: "0 \<le> i" "i < dim_i" "0 \<le> j" "j < dim_j" for i j
    proof -
      from idx_bound [OF ij] have k: "0 \<le> i * dim_j + j \<and> i * dim_j + j < dim_i * dim_j"
        by simp
      have md: "(i * dim_j + j) mod dim_j = j" "j mod dim_j = j" using ij by simp_all
      from fin k obtain x where x: "heap t a ! nat (i * dim_j + j) = Some x" "\<bar>x\<bar> \<le> pow2 990"
        unfolding p by blast
      have "\<forall>v\<in>set (column (heap t a) dim_j dim_i j). \<exists>w. v = Some w \<and> \<bar>w\<bar> \<le> pow2 990"
      proof (rule column_elements)
        fix i' assume "0 \<le> i'" "i' < dim_i"
        from idx_bound [OF this ij(3,4)] fin
        show "\<exists>w. heap t a ! nat (i' * dim_j + j) = Some w \<and> \<bar>w\<bar> \<le> pow2 990"
          unfolding p by simp
      qed
      moreover have "int (length (column (heap t a) dim_j dim_i j)) = dim_i"
        using assms(1) by (intro column_length) simp
      ultimately obtain m where m: "d_div b64_arith (d_sum b64_arith (column (heap t a) dim_j dim_i j))
            (d_of_int b64_arith dim_i) = Some m" "\<bar>m\<bar> \<le> pow2 (990 + 1)"
        using b64_mean_bounded [of "column (heap t a) dim_j dim_i j" 990 dim_i] assms(1) di
        by auto
      with means ij have hm: "heap t' mean ! nat j = Some m" by simp
      from b64_roundtrip_step [OF x(2) m(2)]
      obtain y where y: "d_add b64_arith (d_sub b64_arith (Some x) (Some m)) (Some m) = Some y"
        "\<bar>y - x\<bar> \<le> (\<bar>x\<bar> + \<bar>m\<bar>) / 2 ^ 51 + 1 / 2 ^ 1073" by auto
      from e k have "add_mean_col b64_arith (heap t' b) (heap t' mean) dim_i dim_j
          ! nat (i * dim_j + j) = Some y"
        by (simp add: md x(1) hm y(1))
      with x(1) hm m(2) y(2) show ?thesis unfolding p by blast
    qed
    with r show ?thesis by blast
  qed
  ultimately show ?thesis by blast
qed

theorem centre_roundtrip_witness:
  "(1::int) \<le> 2 \<and> (1::int) \<le> 1 \<and> (2::int) \<le> INT_MAX \<and> (1::int) \<le> INT_MAX \<and> (2::int) * 1 \<le> INT_MAX + 1 \<and> distinct [0::nat, 1, 3] \<and>
   length (heap decimals_exact 0) = nat (2 * 1) \<and> length (heap decimals_exact 1) = nat 1 \<and>
   length (heap decimals_exact 3) = nat (2 * 1) \<and>
   length (heap decimals 0) = nat (2 * 1) \<and> length (heap decimals 1) = nat 1 \<and>
   length (heap decimals 3) = nat (2 * 1) \<and>
   heap decimals 0 = [Some (3602879701896397 / 36028797018963968),
                      Some (4278419646001971 / 2251799813685248)] \<and>
   \<bar>3602879701896397 / 36028797018963968 :: rat\<bar> \<le> 2 ^ 990 \<and>
   \<bar>4278419646001971 / 2251799813685248 :: rat\<bar> \<le> 2 ^ 990 \<and>
   (\<exists>s'. mean_then_remove exact_arith 0 1 3 2 1 decimals_exact = Inr ((), s') \<and>
      add_mean_col exact_arith (heap s' 3) (heap s' 1) 2 1 = [1 / 10, 19 / 10]) \<and>
   (\<exists>t'. mean_then_remove b64_arith 0 1 3 2 1 decimals = Inr ((), t') \<and>
      heap t' 1 = [Some 1] \<and>
      add_mean_col b64_arith (heap t' 3) (heap t' 1) 2 1 =
        [Some (900719925474099 / 9007199254740992), Some (4278419646001971 / 2251799813685248)] \<and>
      \<bar>900719925474099 / 9007199254740992 - 3602879701896397 / 36028797018963968 :: rat\<bar>
        \<le> (\<bar>3602879701896397 / 36028797018963968\<bar> + \<bar>1\<bar>) / 2 ^ 51 + 1 / 2 ^ 1073)"
proof -
  have i: "(2::int) \<le> INT_MAX" "(1::int) \<le> INT_MAX" "(2::int) * 1 \<le> INT_MAX + 1"
    by (simp_all add: INT_MAX_def)
  have h: "distinct [0::nat, 1, 3]"
      "length (heap decimals_exact 0) = nat (2 * 1)" "length (heap decimals_exact 1) = nat 1"
      "length (heap decimals_exact 3) = nat (2 * 1)"
      "length (heap decimals 0) = nat (2 * 1)" "length (heap decimals 1) = nat 1"
      "length (heap decimals 3) = nat (2 * 1)"
    by (simp_all add: decimals_exact_def decimals_def)
  have v: "heap decimals_exact 0 = [1 / 10, 19 / 10]"
    by (simp add: decimals_exact_def)
  have w: "heap decimals 0 = [Some (3602879701896397 / 36028797018963968),
                              Some (4278419646001971 / 2251799813685248)]"
    unfolding decimals_def by (simp add: decimals_arith)
  have b: "\<bar>3602879701896397 / 36028797018963968 :: rat\<bar> \<le> 2 ^ 990"
    "\<bar>4278419646001971 / 2251799813685248 :: rat\<bar> \<le> 2 ^ 990"
    by simp_all
  have f: "\<forall>k. 0 \<le> k \<and> k < 2 * 1 \<longrightarrow> (\<exists>x. heap decimals 0 ! nat k = Some x \<and> \<bar>x\<bar> \<le> 2 ^ 990)"
  proof (intro allI impI)
    fix k :: int
    assume "0 \<le> k \<and> k < 2 * 1"
    then have "k = 0 \<or> k = 1" by auto
    then show "\<exists>x. heap decimals 0 ! nat k = Some x \<and> \<bar>x\<bar> \<le> 2 ^ 990"
    proof
      assume "k = 0"
      with b(1) show ?thesis
        by (intro exI [of _ "3602879701896397 / 36028797018963968"]) (simp add: w)
    next
      assume "k = 1"
      with b(2) show ?thesis
        by (intro exI [of _ "4278419646001971 / 2251799813685248"]) (simp add: w)
    qed
  qed
  from centre_roundtrip [of 2 1 0 1 3 decimals_exact decimals, OF _ _ i h f]
  obtain s' t' where
    s: "mean_then_remove exact_arith 0 1 3 2 1 decimals_exact = Inr ((), s')"
       "add_mean_col exact_arith (heap s' 3) (heap s' 1) 2 1 = heap decimals_exact 0"
    and t: "mean_then_remove b64_arith 0 1 3 2 1 decimals = Inr ((), t')"
    and c: "\<forall>i j. 0 \<le> i \<and> i < 2 \<and> 0 \<le> j \<and> j < 1 \<longrightarrow>
               (\<exists>x m y. heap decimals 0 ! nat (i * 1 + j) = Some x \<and>
                  heap t' 1 ! nat j = Some m \<and>
                  add_mean_col b64_arith (heap t' 3) (heap t' 1) 2 1 ! nat (i * 1 + j) = Some y \<and>
                  \<bar>m\<bar> \<le> 2 ^ 991 \<and>
                  \<bar>y - x\<bar> \<le> (\<bar>x\<bar> + \<bar>m\<bar>) / 2 ^ 51 + 1 / 2 ^ 1073)"
    by auto
  from t have "mean_then_remove b64_arith 0 1 3 2 1
     \<lparr>heap = (\<lambda>p. [])(0 := [Some (3602879701896397 / 36028797018963968),
                               Some (4278419646001971 / 2251799813685248)],
                         1 := [Some 0], 3 := [Some 0, Some 0]), trace = [], stdout = []\<rparr> =
     Inr ((), t')"
    unfolding decimals_def by (simp only: decimals_arith)
  note mean_then_remove_2_by_1 [OF this, unfolded Let_def decimals_arith]
  then have m: "heap t' 1 = [Some 1]"
    and r: "add_mean_col b64_arith (heap t' 3) (heap t' 1) 2 1 =
        [Some (900719925474099 / 9007199254740992), Some (4278419646001971 / 2251799813685248)]"
    by blast+
  from r m have r': "add_mean_col b64_arith (heap t' 3) [Some 1] 2 1 =
        [Some (900719925474099 / 9007199254740992), Some (4278419646001971 / 2251799813685248)]"
    by simp
  from c [rule_format, of 0 0]
  have "\<bar>900719925474099 / 9007199254740992 - 3602879701896397 / 36028797018963968 :: rat\<bar>
        \<le> (\<bar>3602879701896397 / 36028797018963968\<bar> + \<bar>1\<bar>) / 2 ^ 51 + 1 / 2 ^ 1073"
    by (simp add: m [unfolded One_nat_def] r' w)
  with s t m r w h i b show ?thesis by (simp add: v)
qed

text \<open>
  C7. The claim is that \<open>stat_mean\<close> followed by \<open>stat_std\<close> gives exactly 0 for a
  constant column. In binary64 arithmetic it does not for the column (0.1, 0.1, 0.1): the
  sum 0.1 + 0.1 + 0.1 rounds to 0.30000000000000004, the computed mean is
  0.10000000000000002 and not 0.1, every deviation is \<open>-2^(-56)\<close>, and the standard
  deviation written is \<open>2757880273211543 / 2^107\<close>, about \<open>1.7e-17\<close>.
\<close>

theorem constant_column_std_counterexample:
  "heap tenths 0 = replicate 3 (b64_round (1 / 10)) \<and>
   buffer_after (mean_then_std b64_arith 0 1 2 3 1 tenths) 2 =
     Inr [Some (2757880273211543 / 162259276829213363391578010288128)] \<and>
   buffer_after (mean_then_std b64_arith 0 1 2 3 1 tenths) 2 \<noteq> Inr [d_of_int b64_arith 0]"
proof -
  have "buffer_after (mean_then_std b64_arith 0 1 2 3 1 tenths) 2 =
     Inr [Some (2757880273211543 / 162259276829213363391578010288128)]"
    unfolding tenths_def mean_then_std_3_by_1 Let_def
    by (simp only: tenths_arith)
  moreover have "heap tenths 0 = replicate 3 (b64_round (1 / 10))"
    by (simp add: tenths_def numeral_3_eq_3)
  ultimately show ?thesis by (simp add: tenths_arith)
qed

text \<open>
  C7, amended. For every matrix of finite doubles with \<open>dim_i \<ge> 2\<close> rows and
  dimensions and offsets that \<^verbatim>\<open>int\<close> can hold
  (\<open>dim_i, dim_j \<le> INT_MAX\<close> and \<open>dim_i * dim_j \<le> INT_MAX + 1 = 2^31\<close>),
  in which column \<open>j\<close> is constant, with the value \<open>c\<close> in every row, \<open>stat_mean\<close> followed by \<open>stat_std\<close> gives exactly \<open>std[j] = 0\<close> in
  binary64 arithmetic whenever the mean that \<open>stat_mean\<close> computes for the column, the
  sum of \<open>dim_i\<close> copies of \<open>c\<close> divided by \<open>dim_i\<close>, is \<open>c\<close> itself.
\<close>

theorem constant_column_std_zero:
  assumes "2 \<le> dim_i" and "1 \<le> dim_j"
    and "dim_i \<le> INT_MAX" and "dim_j \<le> INT_MAX" and "dim_i * dim_j \<le> INT_MAX + 1"
    and "length (heap s a) = nat (dim_i * dim_j)"
    and "length (heap s mean) = nat dim_j"
    and "length (heap s std) = nat dim_j"
    and "distinct [a, mean, std]"
    and j: "0 \<le> j" "j < dim_j"
    and const: "\<forall>i. 0 \<le> i \<and> i < dim_i \<longrightarrow> heap s a ! nat (i * dim_j + j) = Some c"
    and mean_exact:
      "d_div b64_arith (d_sum b64_arith (replicate (nat dim_i) (Some c))) (d_of_int b64_arith dim_i)
         = Some c"
  shows "\<exists>s'. mean_then_std b64_arith a mean std dim_i dim_j s = Inr ((), s') \<and>
           heap s' mean ! nat j = Some c \<and> heap s' std ! nat j = Some 0"
proof -
  from assms(1,3) have div: "d_div b64_arith (d_of_int b64_arith 0) (d_of_int b64_arith (dim_i - 1)) =
      d_of_int b64_arith 0"
    unfolding b64_zero_laws(1) by (intro b64_zero_div) simp_all
  from constant_column_zero [of dim_i dim_j s a mean std j "Some c" b64_arith,
      OF assms(1-11) const mean_exact _ _ _ div]
  show ?thesis by (simp add: b64_zero_laws)
qed

theorem constant_column_std_zero_witness:
  "(2::int) \<le> 2 \<and> (1::int) \<le> 1 \<and> (2::int) \<le> INT_MAX \<and> (1::int) \<le> INT_MAX \<and> (2::int) * 1 \<le> INT_MAX + 1 \<and>
   length (heap halves 0) = nat (2 * 1) \<and>
   length (heap halves 1) = nat 1 \<and> length (heap halves 2) = nat 1 \<and>
   distinct [0::nat, 1, 2] \<and> heap halves 0 = [Some (1 / 2), Some (1 / 2)] \<and>
   d_div b64_arith (d_sum b64_arith (replicate (nat 2) (Some (1 / 2)))) (d_of_int b64_arith 2)
     = Some (1 / 2) \<and>
   (\<exists>s'. mean_then_std b64_arith 0 1 2 2 1 halves = Inr ((), s') \<and>
      heap s' 1 ! nat 0 = Some (1 / 2) \<and> heap s' 2 ! nat 0 = Some 0)"
proof -
  have i: "(2::int) \<le> INT_MAX" "(1::int) \<le> INT_MAX" "(2::int) * 1 \<le> INT_MAX + 1"
    by (simp_all add: INT_MAX_def)
  have h: "length (heap halves 0) = nat (2 * 1)" "length (heap halves 1) = nat 1"
      "length (heap halves 2) = nat 1" "distinct [0::nat, 1, 2]"
    by (simp_all add: halves_def)
  have v: "heap halves 0 = [Some (1 / 2), Some (1 / 2)]"
    by (simp add: halves_def)
  have c: "\<forall>i. 0 \<le> i \<and> i < 2 \<longrightarrow> heap halves 0 ! nat (i * 1 + 0) = Some (1 / 2)"
  proof (intro allI impI)
    fix i :: int
    assume "0 \<le> i \<and> i < 2"
    then have "i = 0 \<or> i = 1" by auto
    then show "heap halves 0 ! nat (i * 1 + 0) = Some (1 / 2)" by (auto simp: v)
  qed
  have a: "d_div b64_arith (d_sum b64_arith (replicate (nat 2) (Some (1 / 2)))) (d_of_int b64_arith 2)
     = Some (1 / 2)"
    by (simp only: halves_arith)
  from constant_column_std_zero [of 2 1 halves 0 1 2 0 "1 / 2", OF _ _ i h _ _ c a]
  have "\<exists>s'. mean_then_std b64_arith 0 1 2 2 1 halves = Inr ((), s') \<and>
           heap s' 1 ! nat 0 = Some (1 / 2) \<and> heap s' 2 ! nat 0 = Some 0"
    by simp
  with h v a i show ?thesis by blast
qed

text \<open>
  C8. The claim is made for all buffers that do not alias. On the matrix with 3 rows and
  \<open>2^30\<close> columns, with buffers of the documented sizes that do not alias, each of the
  three functions computes the offset \<open>2 * 2^30\<close> of row 2, which \<^verbatim>\<open>int\<close> cannot hold:
  the behaviour of the run is undefined from there, and with it what the run writes.
\<close>

theorem stats_frame_int_overflow:
  "(1::int) \<le> 3 \<and> (1::int) \<le> 1073741824 \<and> distinct [0::nat, 1, 2, 3] \<and>
   length (heap huge 0) = nat (3 * 1073741824) \<and> length (heap huge 1) = nat 1073741824 \<and>
   length (heap huge 2) = nat 1073741824 \<and> length (heap huge 3) = nat (3 * 1073741824) \<and>
   (\<forall>s'. stat_mean exact_arith 0 1 3 1073741824 huge \<noteq> Inr ((), s')) \<and>
   (\<forall>s'. stat_std exact_arith 0 1 2 3 1073741824 huge \<noteq> Inr ((), s')) \<and>
   (\<forall>s'. remove_mean_col exact_arith 0 1 3 3 1073741824 huge \<noteq> Inr ((), s'))"
proof -
  have "stat_mean exact_arith 0 1 3 1073741824 huge = Inl (Int_overflow (2 * 1073741824))"
    by (rule stat_mean_overflow) (simp_all add: huge_lengths INT_MAX_def)
  moreover have "stat_std exact_arith 0 1 2 3 1073741824 huge = Inl (Int_overflow (2 * 1073741824))"
    by (rule stat_std_overflow) (simp_all add: huge_lengths INT_MAX_def)
  moreover have "remove_mean_col exact_arith 0 1 3 3 1073741824 huge =
      Inl (Int_overflow (2 * 1073741824))"
    by (rule remove_mean_col_overflow) (simp_all add: huge_lengths INT_MAX_def)
  ultimately show ?thesis by (simp add: huge_lengths)
qed

text \<open>
  C8, amended. On a matrix \<open>a\<close> with \<open>dim_i \<ge> 1\<close> rows and \<open>dim_j \<ge> 1\<close> columns and
  dimensions and offsets that \<^verbatim>\<open>int\<close> can hold
  (\<open>dim_i, dim_j \<le> INT_MAX\<close> and \<open>dim_i * dim_j \<le> INT_MAX + 1 = 2^31\<close>),
  each of \<open>stat_mean\<close>, \<open>stat_std\<close> and
  \<open>remove_mean_col\<close>, given buffers of the documented sizes and an output buffer
  (\<open>mean\<close>, \<open>std\<close>, \<open>b\<close>) that is none of its input buffers, returns and leaves the
  matrix \<open>a\<close> unchanged, the last two also the mean vector they are given; it writes
  nothing but its output buffer: every other block of the memory and the standard output
  are as before, and every store of the run is a store to the output buffer.
\<close>

theorem stats_frame:
  "(1 \<le> dim_i \<and> 1 \<le> dim_j \<and>
    dim_i \<le> INT_MAX \<and> dim_j \<le> INT_MAX \<and> dim_i * dim_j \<le> INT_MAX + 1 \<and>
    length (heap s a) = nat (dim_i * dim_j) \<and> length (heap s mean) = nat dim_j \<and>
    mean \<noteq> a \<longrightarrow>
      (\<exists>s'. stat_mean A a mean dim_i dim_j s = Inr ((), s') \<and>
         heap s' a = heap s a \<and> writes_only mean s s')) \<and>
   (1 \<le> dim_i \<and> 1 \<le> dim_j \<and>
    dim_i \<le> INT_MAX \<and> dim_j \<le> INT_MAX \<and> dim_i * dim_j \<le> INT_MAX + 1 \<and>
    length (heap s a) = nat (dim_i * dim_j) \<and> length (heap s mean) = nat dim_j \<and>
    length (heap s std) = nat dim_j \<and> std \<noteq> a \<and> std \<noteq> mean \<longrightarrow>
      (\<exists>s'. stat_std A a mean std dim_i dim_j s = Inr ((), s') \<and>
         heap s' a = heap s a \<and> heap s' mean = heap s mean \<and> writes_only std s s')) \<and>
   (1 \<le> dim_i \<and> 1 \<le> dim_j \<and>
    dim_i \<le> INT_MAX \<and> dim_j \<le> INT_MAX \<and> dim_i * dim_j \<le> INT_MAX + 1 \<and>
    length (heap s a) = nat (dim_i * dim_j) \<and> length (heap s mean) = nat dim_j \<and>
    length (heap s b) = nat (dim_i * dim_j) \<and> b \<noteq> a \<and> b \<noteq> mean \<longrightarrow>
      (\<exists>s'. remove_mean_col A a mean b dim_i dim_j s = Inr ((), s') \<and>
         heap s' a = heap s a \<and> heap s' mean = heap s mean \<and> writes_only b s s'))"
proof (intro conjI impI)
  assume p: "1 \<le> dim_i \<and> 1 \<le> dim_j \<and>
    dim_i \<le> INT_MAX \<and> dim_j \<le> INT_MAX \<and> dim_i * dim_j \<le> INT_MAX + 1 \<and>
    length (heap s a) = nat (dim_i * dim_j) \<and> length (heap s mean) = nat dim_j \<and> mean \<noteq> a"
  then have "\<exists>s'. stat_mean A a mean dim_i dim_j s = Inr ((), s') \<and>
      finalised A (\<lambda>_ x. x) (\<lambda>v. d_div A v (d_of_int A dim_i)) a mean dim_i dim_j s dim_j s' \<and>
      loaded a s (dim_i * dim_j) s'"
    by (intro stat_mean_effect) auto
  then obtain s1 where 1: "stat_mean A a mean dim_i dim_j s = Inr ((), s1)" by blast
  have w: "writes_only mean s s1" using 1 by (rule stat_mean_writes_only)
  with p have "heap s1 a = heap s a" by (simp add: writes_only_def)
  with 1 w show "\<exists>s'. stat_mean A a mean dim_i dim_j s = Inr ((), s') \<and>
         heap s' a = heap s a \<and> writes_only mean s s'" by blast
next
  assume p: "1 \<le> dim_i \<and> 1 \<le> dim_j \<and>
    dim_i \<le> INT_MAX \<and> dim_j \<le> INT_MAX \<and> dim_i * dim_j \<le> INT_MAX + 1 \<and>
    length (heap s a) = nat (dim_i * dim_j) \<and> length (heap s mean) = nat dim_j \<and>
    length (heap s std) = nat dim_j \<and> std \<noteq> a \<and> std \<noteq> mean"
  then have "\<exists>s'. stat_std A a mean std dim_i dim_j s = Inr ((), s') \<and>
           finalised A (\<lambda>k. sq_dev A (heap s mean ! nat k))
             (\<lambda>v. d_sqrt A (d_div A v (d_of_int A (dim_i - 1)))) a std dim_i dim_j s dim_j s'"
    by (intro stat_std_effect) auto
  then obtain s2 where 2: "stat_std A a mean std dim_i dim_j s = Inr ((), s2)" by blast
  have w: "writes_only std s s2" using 2 by (rule stat_std_writes_only)
  with p have "heap s2 a = heap s a" "heap s2 mean = heap s mean"
    by (simp_all add: writes_only_def)
  with 2 w show "\<exists>s'. stat_std A a mean std dim_i dim_j s = Inr ((), s') \<and>
         heap s' a = heap s a \<and> heap s' mean = heap s mean \<and> writes_only std s s'" by blast
next
  assume p: "1 \<le> dim_i \<and> 1 \<le> dim_j \<and>
    dim_i \<le> INT_MAX \<and> dim_j \<le> INT_MAX \<and> dim_i * dim_j \<le> INT_MAX + 1 \<and>
    length (heap s a) = nat (dim_i * dim_j) \<and> length (heap s mean) = nat dim_j \<and>
    length (heap s b) = nat (dim_i * dim_j) \<and> b \<noteq> a \<and> b \<noteq> mean"
  then have "\<exists>s'. remove_mean_col A a mean b dim_i dim_j s = Inr ((), s') \<and>
         centred A a mean b dim_j s (dim_i * dim_j) s'"
    by (intro centred_outer) auto
  then obtain s3 where 3: "remove_mean_col A a mean b dim_i dim_j s = Inr ((), s3)" by blast
  have w: "writes_only b s s3" using 3 by (rule remove_mean_col_writes_only)
  with p have "heap s3 a = heap s a" "heap s3 mean = heap s mean"
    by (simp_all add: writes_only_def)
  with 3 w show "\<exists>s'. remove_mean_col A a mean b dim_i dim_j s = Inr ((), s') \<and>
         heap s' a = heap s a \<and> heap s' mean = heap s mean \<and> writes_only b s s'" by blast
qed

theorem stats_frame_witness:
  "(1::int) \<le> 3 \<and> (1::int) \<le> 2 \<and> (3::int) \<le> INT_MAX \<and> (2::int) \<le> INT_MAX \<and> (3::int) * 2 \<le> INT_MAX + 1 \<and>
   length (heap scenario 0) = nat (3 * 2) \<and>
   length (heap scenario 1) = nat 2 \<and> length (heap scenario 2) = nat 2 \<and>
   length (heap scenario 3) = nat (3 * 2) \<and> distinct [0::nat, 1, 2, 3] \<and>
   (\<exists>s'. stat_mean exact_arith 0 1 3 2 scenario = Inr ((), s') \<and>
      heap s' 0 = [1, 2, 3, 4, 5, 6] \<and> writes_only 1 scenario s') \<and>
   (\<exists>s'. stat_std exact_arith 0 1 2 3 2 scenario = Inr ((), s') \<and>
      heap s' 0 = [1, 2, 3, 4, 5, 6] \<and> heap s' 1 = [0, 0] \<and> writes_only 2 scenario s') \<and>
   (\<exists>s'. remove_mean_col exact_arith 0 1 3 3 2 scenario = Inr ((), s') \<and>
      heap s' 0 = [1, 2, 3, 4, 5, 6] \<and> heap s' 1 = [0, 0] \<and> writes_only 3 scenario s')"
proof -
  have i: "(3::int) \<le> INT_MAX" "(2::int) \<le> INT_MAX" "(3::int) * 2 \<le> INT_MAX + 1"
    by (simp_all add: INT_MAX_def)
  have h: "length (heap scenario 0) = nat (3 * 2)" "length (heap scenario 1) = nat 2"
      "length (heap scenario 2) = nat 2" "length (heap scenario 3) = nat (3 * 2)"
      "distinct [0::nat, 1, 2, 3]"
    by (simp_all add: scenario_def)
  have v: "heap scenario 0 = [1, 2, 3, 4, 5, 6]" "heap scenario (Suc 0) = [0, 0]"
    by (simp_all add: scenario_def)
  from stats_frame [of 3 2 scenario 0 1 exact_arith 2 3]
  show ?thesis using h i by (simp add: v)
qed


text \<open>
  C10. The double nearest to 3.14159265 is \<open>7074237743944945 / 2^51\<close>. On the 1 by 1
  matrix that holds it, \<open>show_matrix\<close> appends to the standard output the nine characters
  \<open>3.14159\<close>, a space and a newline.
\<close>

theorem show_matrix_pi:
  "b64_round (314159265 / 100000000) = Some (7074237743944945 / 2251799813685248) \<and>
   show_matrix printf_2_5f A 1 1
     (s\<lparr>heap := (heap s)(A := [7074237743944945 / 2251799813685248])\<rparr>) =
     Inr ((), s\<lparr>heap := (heap s)(A := [7074237743944945 / 2251799813685248]),
                 trace := trace s @ [Load A 0],
                 stdout := stdout s @ ''3.14159 \<newline>''\<rparr>) \<and>
   length ''3.14159 \<newline>'' = 9"
proof -
  have "b64_round (314159265 / 100000000) = Some (7074237743944945 / 2251799813685248)"
    by code_simp
  moreover have "printf_2_5f (7074237743944945 / 2251799813685248) = ''3.14159''"
    by code_simp
  ultimately show ?thesis
    by (simp add: show_matrix_def exec_simps)
qed

end
